theory Spec2Isabelle
  imports Complex_Main
begin

section \<open>The MPI Jacobi solver, \<open>MPI/jacobi_mpi.c\<close>\<close>

text \<open>
  The program solves \<open>A x = b\<close> by Jacobi iteration. Every rank runs the same \<open>main\<close>;
  rank 0 loads the system, the rows are scattered in contiguous blocks, and each round
  every rank updates its own rows, the segments are gathered on rank 0, the assembled
  vector is broadcast, and the sum of the local errors is reduced to every rank.

  The collectives make the ranks proceed in lock-step, so the model is the sequence of
  rounds on the list of the ranks' local memories. The loop counter and the reduced error
  are the same value on every rank (the counter is incremented once per round by each, the
  error is the result of \<open>MPI_Allreduce\<close>), so the model keeps one copy of each.
\<close>

subsection \<open>Arithmetic on \<open>double\<close>\<close>

text \<open>
  The operations the source applies to \<open>double\<close> values are a parameter of the model:
  \<open>0.0\<close>, \<open>+\<close>, \<open>-\<close>, \<open>*\<close>, \<open>/\<close>, \<open>fabs\<close>, the comparison \<open>>\<close> and the
  constant \<open>TOLERANCE\<close>. A theorem stated for every \<open>ar\<close> holds for IEEE-754 arithmetic,
  whatever it rounds to and whatever a division by zero yields. \<open>real_arith\<close> is exact
  arithmetic on the reals with the \<open>double\<close> nearest to \<open>1e-5\<close> as tolerance: nothing
  is rounded, nothing overflows, there is no NaN, and a division by zero is 0. It is used
  only where a statement says that it is about exact arithmetic.
\<close>

record 'a arith =
  fzero :: 'a
  fadd :: "'a \<Rightarrow> 'a \<Rightarrow> 'a"
  fsub :: "'a \<Rightarrow> 'a \<Rightarrow> 'a"
  fmul :: "'a \<Rightarrow> 'a \<Rightarrow> 'a"
  fdiv :: "'a \<Rightarrow> 'a \<Rightarrow> 'a"
  fabs :: "'a \<Rightarrow> 'a"
  fgt :: "'a \<Rightarrow> 'a \<Rightarrow> bool"
  TOLERANCE :: 'a

definition real_arith :: "real arith" where
  "real_arith = \<lparr>fzero = 0, fadd = (+), fsub = (-), fmul = (*), fdiv = (/),
     fabs = abs, fgt = (>), TOLERANCE = 5902958103587057 / 2 ^ 69\<rparr>"

text \<open>
  An arithmetic with a NaN, for the inputs on which the solver meets one: the reals and
  one more value, \<open>None\<close>. As in IEEE-754, every operation with a NaN operand yields
  NaN and no comparison with a NaN holds; \<open>le_nan\<close> is the comparison \<open><=\<close>. Numbers
  are not rounded and there are no infinities: a division by zero yields NaN here.
\<close>

definition nan_arith :: "real option arith" where
  "nan_arith =
     \<lparr>fzero = Some 0,
      fadd = (\<lambda>x y. case (x, y) of (Some a, Some b) \<Rightarrow> Some (a + b) | _ \<Rightarrow> None),
      fsub = (\<lambda>x y. case (x, y) of (Some a, Some b) \<Rightarrow> Some (a - b) | _ \<Rightarrow> None),
      fmul = (\<lambda>x y. case (x, y) of (Some a, Some b) \<Rightarrow> Some (a * b) | _ \<Rightarrow> None),
      fdiv = (\<lambda>x y. case (x, y) of
                (Some a, Some b) \<Rightarrow> if b = 0 then None else Some (a / b)
              | _ \<Rightarrow> None),
      fabs = map_option abs,
      fgt = (\<lambda>x y. case (x, y) of (Some a, Some b) \<Rightarrow> a > b | _ \<Rightarrow> False),
      TOLERANCE = Some (5902958103587057 / 2 ^ 69)\<rparr>"

definition le_nan :: "real option \<Rightarrow> real option \<Rightarrow> bool" where
  "le_nan x y = (case (x, y) of (Some a, Some b) \<Rightarrow> a \<le> b | _ \<Rightarrow> False)"

definition MAX_ITER :: nat where
  "MAX_ITER = 1000"

text \<open>The largest value of the 32-bit \<open>int\<close> of the source.\<close>

definition INT_MAX :: nat where
  "INT_MAX = 2147483647"

subsection \<open>Row distribution (lines 54-59)\<close>

text \<open>
  \<open>N\<close> is positive here (line 48 has returned otherwise) and the number of ranks is at
  least 1, so the \<open>int\<close> values of the source are natural numbers, and C's \<open>/\<close> and
  \<open>%\<close> are \<open>div\<close> and \<open>mod\<close>. The communicator size is called \<open>nprocs\<close>.
  Every value of this subsection is at most \<open>N\<close>, which is an \<open>int\<close>.
\<close>

definition base :: "nat \<Rightarrow> nat \<Rightarrow> nat" where
  "base N nprocs = N div nprocs"

definition rem :: "nat \<Rightarrow> nat \<Rightarrow> nat" where
  "rem N nprocs = N mod nprocs"

definition local_rows :: "nat \<Rightarrow> nat \<Rightarrow> nat \<Rightarrow> nat" where
  "local_rows N nprocs rank = base N nprocs + (if rank < rem N nprocs then 1 else 0)"

definition start_row :: "nat \<Rightarrow> nat \<Rightarrow> nat \<Rightarrow> nat" where
  "start_row N nprocs rank =
     rank * base N nprocs + (if rank < rem N nprocs then rank else rem N nprocs)"

definition end_row :: "nat \<Rightarrow> nat \<Rightarrow> nat \<Rightarrow> nat" where
  "end_row N nprocs rank = start_row N nprocs rank + local_rows N nprocs rank"

subsection \<open>Counts and displacements for the scatter (lines 66-86)\<close>

record scatter_arrays =
  sendcounts :: "nat list"
  displsA :: "nat list"
  sendcounts_b :: "nat list"
  displsb :: "nat list"
  offset_rows :: nat
  offset_elemsA :: nat

text \<open>
  The body of the loop over \<open>r\<close>, lines 78-84. The source computes \<open>rows_r * N\<close>
  and \<open>offset_elemsA\<close> in \<open>int\<close>; the model computes them on the natural numbers.
  The two agree as long as \<open>N * N \<le> INT_MAX\<close>, since no value exceeds \<open>N * N\<close>;
  beyond that the \<open>int\<close> of the source overflows, and what is proved of
  \<open>sendcounts\<close> and \<open>displsA\<close> is proved under this bound.
\<close>

definition scatter_body :: "nat \<Rightarrow> nat \<Rightarrow> nat \<Rightarrow> scatter_arrays \<Rightarrow> scatter_arrays" where
  "scatter_body N nprocs r s =
     (let rows_r = base N nprocs + (if r < rem N nprocs then 1 else 0) in
      s\<lparr>sendcounts := (sendcounts s)[r := rows_r * N],
        displsA := (displsA s)[r := offset_elemsA s],
        sendcounts_b := (sendcounts_b s)[r := rows_r],
        displsb := (displsb s)[r := offset_rows s],
        offset_rows := offset_rows s + rows_r,
        offset_elemsA := offset_elemsA s + rows_r * N\<rparr>)"

function scatter_loop :: "nat \<Rightarrow> nat \<Rightarrow> nat \<Rightarrow> scatter_arrays \<Rightarrow> scatter_arrays" where
  "scatter_loop N nprocs r s =
     (if r < nprocs then scatter_loop N nprocs (r + 1) (scatter_body N nprocs r s) else s)"
  by pat_completeness auto

termination
  by (relation "measure (\<lambda>(N, nprocs, r, s). nprocs - r)") auto

declare scatter_loop.simps [simp del]

text \<open>The four arrays are allocated with \<open>nprocs\<close> entries; every entry is written by the loop.\<close>

definition scatter_setup :: "nat \<Rightarrow> nat \<Rightarrow> scatter_arrays" where
  "scatter_setup N nprocs =
     scatter_loop N nprocs 0
       \<lparr>sendcounts = replicate nprocs 0, displsA = replicate nprocs 0,
        sendcounts_b = replicate nprocs 0, displsb = replicate nprocs 0,
        offset_rows = 0, offset_elemsA = 0\<rparr>"

subsection \<open>Array accesses\<close>

text \<open>
  A read or a write outside an array is undefined behaviour in C. The model checks the
  index: \<open>None\<close> is an access out of range, and it propagates through every loop.
\<close>

definition rd :: "'a list \<Rightarrow> nat \<Rightarrow> 'a option" where
  "rd xs i = (if i < length xs then Some (xs ! i) else None)"

definition wr :: "'a list \<Rightarrow> nat \<Rightarrow> 'a \<Rightarrow> 'a list option" where
  "wr xs i v = (if i < length xs then Some (xs[i := v]) else None)"

subsection \<open>The memory of one rank\<close>

text \<open>
  The arrays a rank allocates (lines 62-63 and 95-97). The array \<open>x\<close> of the source is
  the field \<open>x_cur\<close>.
\<close>

record 'a rank_mem =
  A_local :: "'a list"
  b_local :: "'a list"
  x_cur :: "'a list"
  x_old :: "'a list"
  x_local :: "'a list"

subsection \<open>One Jacobi sweep on a rank (lines 109-120)\<close>

text \<open>Line 110: \<open>for (i = 0; i < N; i++) x_old[i] = x[i]\<close>.\<close>

function copy_loop :: "nat \<Rightarrow> 'a rank_mem \<Rightarrow> nat \<Rightarrow> 'a rank_mem option" where
  "copy_loop N w i =
     (if i < N then
        (case rd (x_cur w) i of
           None \<Rightarrow> None
         | Some v \<Rightarrow>
            (case wr (x_old w) i v of
               None \<Rightarrow> None
             | Some xo \<Rightarrow> copy_loop N (w\<lparr>x_old := xo\<rparr>) (i + 1)))
      else Some w)"
  by pat_completeness auto

termination
  by (relation "measure (\<lambda>(N, w, i). N - i)") auto

declare copy_loop.simps [simp del]

text \<open>
  Lines 115-118: the inner loop over the columns \<open>j\<close> of the row with local index \<open>li\<close>
  and global index \<open>i\<close>; \<open>sm\<close> is the variable \<open>sum\<close>.
\<close>

function row_sum :: "'a arith \<Rightarrow> nat \<Rightarrow> 'a rank_mem \<Rightarrow> nat \<Rightarrow> nat \<Rightarrow> nat \<Rightarrow> 'a \<Rightarrow> 'a option" where
  "row_sum ar N w li i j sm =
     (if j < N then
        (if j \<noteq> i then
           (case rd (A_local w) (li * N + j) of
              None \<Rightarrow> None
            | Some a \<Rightarrow>
               (case rd (x_old w) j of
                  None \<Rightarrow> None
                | Some xj \<Rightarrow> row_sum ar N w li i (j + 1) (fadd ar sm (fmul ar a xj))))
         else row_sum ar N w li i (j + 1) sm)
      else Some sm)"
  by pat_completeness auto

termination
  by (relation "measure (\<lambda>(ar, N, w, li, i, j, sm). N - j)") auto

declare row_sum.simps [simp del]

text \<open>Lines 113-120: the loop over the rows the rank owns.\<close>

function update_rows :: "'a arith \<Rightarrow> nat \<Rightarrow> nat \<Rightarrow> nat \<Rightarrow> 'a rank_mem \<Rightarrow> nat \<Rightarrow> 'a rank_mem option" where
  "update_rows ar N nprocs rank w li =
     (if li < local_rows N nprocs rank then
        (let i = start_row N nprocs rank + li in
         case row_sum ar N w li i 0 (fzero ar) of
           None \<Rightarrow> None
         | Some sm \<Rightarrow>
            (case rd (b_local w) li of
               None \<Rightarrow> None
             | Some bv \<Rightarrow>
                (case rd (A_local w) (li * N + i) of
                   None \<Rightarrow> None
                 | Some d \<Rightarrow>
                    (case wr (x_local w) li (fdiv ar (fsub ar bv sm) d) of
                       None \<Rightarrow> None
                     | Some xl \<Rightarrow> update_rows ar N nprocs rank (w\<lparr>x_local := xl\<rparr>) (li + 1)))))
      else Some w)"
  by pat_completeness auto

termination
  by (relation "measure (\<lambda>(ar, N, nprocs, rank, w, li). local_rows N nprocs rank - li)") auto

declare update_rows.simps [simp del]

definition compute_phase :: "'a arith \<Rightarrow> nat \<Rightarrow> nat \<Rightarrow> nat \<Rightarrow> 'a rank_mem \<Rightarrow> 'a rank_mem option" where
  "compute_phase ar N nprocs rank w =
     (case copy_loop N w 0 of
        None \<Rightarrow> None
      | Some w' \<Rightarrow> update_rows ar N nprocs rank w' 0)"

subsection \<open>The local error of a rank (lines 146-150)\<close>

function error_loop :: "'a arith \<Rightarrow> nat \<Rightarrow> nat \<Rightarrow> nat \<Rightarrow> 'a rank_mem \<Rightarrow> nat \<Rightarrow> 'a \<Rightarrow> 'a option" where
  "error_loop ar N nprocs rank w li local_error =
     (if li < local_rows N nprocs rank then
        (let i = start_row N nprocs rank + li in
         case rd (x_cur w) i of
           None \<Rightarrow> None
         | Some xi \<Rightarrow>
            (case rd (x_old w) i of
               None \<Rightarrow> None
             | Some xo \<Rightarrow>
                error_loop ar N nprocs rank w (li + 1)
                  (fadd ar local_error (fabs ar (fsub ar xi xo)))))
      else Some local_error)"
  by pat_completeness auto

termination
  by (relation "measure (\<lambda>(ar, N, nprocs, rank, w, li, e). local_rows N nprocs rank - li)") auto

declare error_loop.simps [simp del]

subsection \<open>Counts and displacements for the gather (lines 124-137)\<close>

record gather_arrays =
  rcounts :: "nat list"
  rdispls :: "nat list"
  offset :: nat

definition gather_body :: "nat \<Rightarrow> nat \<Rightarrow> nat \<Rightarrow> gather_arrays \<Rightarrow> gather_arrays" where
  "gather_body N nprocs r g =
     (let rows_r = base N nprocs + (if r < rem N nprocs then 1 else 0) in
      g\<lparr>rcounts := (rcounts g)[r := rows_r],
        rdispls := (rdispls g)[r := offset g],
        offset := offset g + rows_r\<rparr>)"

function gather_loop :: "nat \<Rightarrow> nat \<Rightarrow> nat \<Rightarrow> gather_arrays \<Rightarrow> gather_arrays" where
  "gather_loop N nprocs r g =
     (if r < nprocs then gather_loop N nprocs (r + 1) (gather_body N nprocs r g) else g)"
  by pat_completeness auto

termination
  by (relation "measure (\<lambda>(N, nprocs, r, g). nprocs - r)") auto

declare gather_loop.simps [simp del]

definition gather_setup :: "nat \<Rightarrow> nat \<Rightarrow> gather_arrays" where
  "gather_setup N nprocs =
     gather_loop N nprocs 0
       \<lparr>rcounts = replicate nprocs 0, rdispls = replicate nprocs 0, offset = 0\<rparr>"

subsection \<open>The collectives\<close>

text \<open>
  \<open>MPI_Scatterv\<close>: rank \<open>r\<close> receives the \<open>counts[r]\<close> elements of the root's buffer
  that start at \<open>displs[r]\<close>.
\<close>

definition scatterv :: "'a list \<Rightarrow> nat list \<Rightarrow> nat list \<Rightarrow> nat \<Rightarrow> 'a list" where
  "scatterv sendbuf counts displs rank = take (counts ! rank) (drop (displs ! rank) sendbuf)"

text \<open>
  \<open>MPI_Gatherv\<close>: the segment of rank \<open>r\<close> is stored in the root's buffer from
  \<open>displs[r]\<close> on, for ranks 0, 1, ... in turn.
\<close>

fun write_at :: "'a list \<Rightarrow> nat \<Rightarrow> 'a list \<Rightarrow> 'a list" where
  "write_at buf k [] = buf"
| "write_at buf k (v # vs) = write_at (buf[k := v]) (Suc k) vs"

definition gatherv :: "'a list \<Rightarrow> 'a list list \<Rightarrow> nat list \<Rightarrow> nat list \<Rightarrow> 'a list" where
  "gatherv recvbuf segs counts displs =
     foldl (\<lambda>buf r. write_at buf (displs ! r) (take (counts ! r) (segs ! r)))
       recvbuf [0..<length segs]"

text \<open>
  \<open>MPI_Allreduce\<close> with \<open>MPI_SUM\<close>: the contributions of all ranks are added, here from
  rank 0 upwards, and every rank receives the result.
\<close>

fun allreduce_sum :: "'a arith \<Rightarrow> 'a list \<Rightarrow> 'a" where
  "allreduce_sum ar [] = fzero ar"
| "allreduce_sum ar (e # es) = foldl (fadd ar) e es"

subsection \<open>One round of the iteration (lines 109-153)\<close>

record 'a solver =
  ranks :: "'a rank_mem list"
  iterations :: nat
  global_error :: 'a

text \<open>Every rank copies \<open>x\<close> to \<open>x_old\<close> and updates its rows.\<close>

definition compute_all :: "'a arith \<Rightarrow> nat \<Rightarrow> nat \<Rightarrow> 'a rank_mem list \<Rightarrow> 'a rank_mem list option" where
  "compute_all ar N nprocs ws =
     those (map (\<lambda>rank. compute_phase ar N nprocs rank (ws ! rank)) [0..<nprocs])"

text \<open>
  Rank 0 computes \<open>rcounts\<close> and \<open>rdispls\<close> (again in every round), the segments
  \<open>x_local\<close> of all ranks are gathered into its \<open>x\<close>, and \<open>MPI_Bcast\<close> copies that
  \<open>x\<close> to every rank.
\<close>

definition gather_bcast :: "nat \<Rightarrow> nat \<Rightarrow> 'a rank_mem list \<Rightarrow> 'a rank_mem list" where
  "gather_bcast N nprocs ws =
     (let g = gather_setup N nprocs;
          xg = gatherv (x_cur (ws ! 0)) (map x_local ws) (rcounts g) (rdispls g)
      in map (\<lambda>w. w\<lparr>x_cur := xg\<rparr>) ws)"

text \<open>The local error of every rank, the contributions to the reduction.\<close>

definition local_errors :: "'a arith \<Rightarrow> nat \<Rightarrow> nat \<Rightarrow> 'a rank_mem list \<Rightarrow> 'a list option" where
  "local_errors ar N nprocs ws =
     those (map (\<lambda>rank. error_loop ar N nprocs rank (ws ! rank) 0 (fzero ar)) [0..<nprocs])"

definition jacobi_round :: "'a arith \<Rightarrow> nat \<Rightarrow> nat \<Rightarrow> 'a solver \<Rightarrow> 'a solver option" where
  "jacobi_round ar N nprocs st =
     (case compute_all ar N nprocs (ranks st) of
        None \<Rightarrow> None
      | Some ws1 \<Rightarrow>
         (let ws2 = gather_bcast N nprocs ws1 in
          case local_errors ar N nprocs ws2 of
            None \<Rightarrow> None
          | Some errs \<Rightarrow>
             Some \<lparr>ranks = ws2, iterations = iterations st + 1,
                   global_error = allreduce_sum ar errs\<rparr>))"

subsection \<open>The iteration (lines 108-159)\<close>

text \<open>
  The \<open>do ... while\<close> loop: the body runs, then the condition
  \<open>global_error > TOLERANCE && iterations < MAX_ITER\<close> decides whether it runs again.
\<close>

function jacobi_loop :: "'a arith \<Rightarrow> nat \<Rightarrow> nat \<Rightarrow> 'a solver \<Rightarrow> 'a solver option" where
  "jacobi_loop ar N nprocs st =
     (case jacobi_round ar N nprocs st of
        None \<Rightarrow> None
      | Some st' \<Rightarrow>
         if fgt ar (global_error st') (TOLERANCE ar) \<and> iterations st' < MAX_ITER
         then jacobi_loop ar N nprocs st'
         else Some st')"
  by pat_completeness auto

termination
  by (relation "measure (\<lambda>(ar, N, nprocs, st). MAX_ITER - iterations st)")
    (auto simp: jacobi_round_def Let_def split: option.splits)

declare jacobi_loop.simps [simp del]

subsection \<open>Loading the system (lines 26-44)\<close>

text \<open>
  The file is what \<open>fscanf\<close> can read from it: the integer \<open>N\<close>, if there is one,
  and the numbers that follow. Rank 0 reads \<open>N * N\<close> entries of \<open>A\<close> and \<open>N\<close> entries
  of \<open>b\<close>; for \<open>N \<le> 0\<close> the loops read nothing. Each failure calls \<open>die\<close>.
  Allocations are taken to succeed; a failed one calls \<open>die\<close> too.
\<close>

datatype 'a input_file = NoFile | File "int option" "'a list"

datatype error = OpenFailed | ReadNFailed | ReadAFailed | ReadbFailed | InvalidN | OutOfRange

definition load :: "'a input_file \<Rightarrow> error + int \<times> 'a list \<times> 'a list" where
  "load f =
     (case f of
        NoFile \<Rightarrow> Inl OpenFailed
      | File None ds \<Rightarrow> Inl ReadNFailed
      | File (Some N) ds \<Rightarrow>
         (let n = nat N in
          if length ds < n * n then Inl ReadAFailed
          else if length ds < n * n + n then Inl ReadbFailed
          else Inr (N, take (n * n) ds, take n (drop (n * n) ds))))"

subsection \<open>The program (lines 14-190)\<close>

record 'a report =
  solution :: "'a list"
  printed :: "'a list"
  iters :: nat
  final_error :: 'a

text \<open>
  The state after the scatter and the initialisation of \<open>x\<close> and \<open>x_old\<close> (lines
  88-105). \<open>x_local\<close> is not initialised by the source; every entry is written before
  the gather reads it.
\<close>

definition init_rank :: "'a arith \<Rightarrow> nat \<Rightarrow> nat \<Rightarrow> 'a list \<Rightarrow> 'a list \<Rightarrow> nat \<Rightarrow> 'a rank_mem" where
  "init_rank ar N nprocs A_full b_full rank =
     (let sa = scatter_setup N nprocs in
      \<lparr>A_local = scatterv A_full (sendcounts sa) (displsA sa) rank,
       b_local = scatterv b_full (sendcounts_b sa) (displsb sa) rank,
       x_cur = replicate N (fzero ar),
       x_old = replicate N (fzero ar),
       x_local = replicate (local_rows N nprocs rank) (fzero ar)\<rparr>)"

definition init_solver :: "'a arith \<Rightarrow> nat \<Rightarrow> nat \<Rightarrow> 'a list \<Rightarrow> 'a list \<Rightarrow> 'a solver" where
  "init_solver ar N nprocs A_full b_full =
     \<lparr>ranks = map (init_rank ar N nprocs A_full b_full) [0..<nprocs],
      iterations = 0, global_error = fzero ar\<rparr>"

text \<open>What rank 0 prints (lines 161-171).\<close>

definition report_of :: "nat \<Rightarrow> 'a solver \<Rightarrow> 'a report" where
  "report_of N st =
     (let print_size = (if N < 5 then N else 5) in
      \<lparr>solution = x_cur (ranks st ! 0),
       printed = take print_size (x_cur (ranks st ! 0)),
       iters = iterations st,
       final_error = global_error st\<rparr>)"

definition jacobi_mpi :: "'a arith \<Rightarrow> nat \<Rightarrow> 'a input_file \<Rightarrow> error + 'a report" where
  "jacobi_mpi ar nprocs f =
     (case load f of
        Inl e \<Rightarrow> Inl e
      | Inr (N, A_full, b_full) \<Rightarrow>
         if N \<le> 0 then Inl InvalidN
         else
           (case jacobi_loop ar (nat N) nprocs (init_solver ar (nat N) nprocs A_full b_full) of
              None \<Rightarrow> Inl OutOfRange
            | Some st \<Rightarrow> Inr (report_of (nat N) st)))"

text \<open>
  The exit status: \<open>die\<close> aborts with 1, line 51 returns 1, line 189 returns 0. An
  access out of range has no defined status.
\<close>

definition exit_status :: "error + 'a report \<Rightarrow> int option" where
  "exit_status r =
     (case r of
        Inl OutOfRange \<Rightarrow> None
      | Inl e \<Rightarrow> Some 1
      | Inr rep \<Rightarrow> Some 0)"

subsection \<open>The loop condition and the state before the loop\<close>

text \<open>The condition of line 159, on the state a round has returned.\<close>

definition loop_cond :: "'a arith \<Rightarrow> 'a solver \<Rightarrow> bool" where
  "loop_cond ar st \<longleftrightarrow> fgt ar (global_error st) (TOLERANCE ar) \<and> iterations st < MAX_ITER"

text \<open>
  The state at line 104 for a file that holds the dimension \<open>N\<close> and the numbers
  \<open>ds\<close>: the first \<open>N * N\<close> numbers are \<open>A\<close>, the next \<open>N\<close> are \<open>b\<close>.
\<close>

definition start_state :: "'a arith \<Rightarrow> nat \<Rightarrow> int \<Rightarrow> 'a list \<Rightarrow> 'a solver" where
  "start_state ar nprocs N ds =
     init_solver ar (nat N) nprocs (take (nat N * nat N) ds)
       (take (nat N) (drop (nat N * nat N) ds))"

subsection \<open>The program with the gather arrays computed once\<close>

text \<open>
  The specification allows an implementation to compute the counts and displacements of
  the gather once. Here the counts are the numbers of rows of the ranks and the
  displacements are the prefix sums of the counts; both are computed before the loop and
  handed to every round. Everything else is the program above.
\<close>

definition partition_counts :: "nat \<Rightarrow> nat \<Rightarrow> nat list" where
  "partition_counts N nprocs = map (local_rows N nprocs) [0..<nprocs]"

definition partition_displs :: "nat \<Rightarrow> nat \<Rightarrow> nat list" where
  "partition_displs N nprocs =
     map (\<lambda>r. sum_list (take r (partition_counts N nprocs))) [0..<nprocs]"

definition gather_bcast_pre :: "nat list \<Rightarrow> nat list \<Rightarrow> 'a rank_mem list \<Rightarrow> 'a rank_mem list" where
  "gather_bcast_pre counts displs ws =
     (let xg = gatherv (x_cur (ws ! 0)) (map x_local ws) counts displs
      in map (\<lambda>w. w\<lparr>x_cur := xg\<rparr>) ws)"

definition jacobi_round_pre ::
  "'a arith \<Rightarrow> nat \<Rightarrow> nat \<Rightarrow> nat list \<Rightarrow> nat list \<Rightarrow> 'a solver \<Rightarrow> 'a solver option" where
  "jacobi_round_pre ar N nprocs counts displs st =
     (case compute_all ar N nprocs (ranks st) of
        None \<Rightarrow> None
      | Some ws1 \<Rightarrow>
         (let ws2 = gather_bcast_pre counts displs ws1 in
          case local_errors ar N nprocs ws2 of
            None \<Rightarrow> None
          | Some errs \<Rightarrow>
             Some \<lparr>ranks = ws2, iterations = iterations st + 1,
                   global_error = allreduce_sum ar errs\<rparr>))"

function jacobi_loop_pre ::
  "'a arith \<Rightarrow> nat \<Rightarrow> nat \<Rightarrow> nat list \<Rightarrow> nat list \<Rightarrow> 'a solver \<Rightarrow> 'a solver option" where
  "jacobi_loop_pre ar N nprocs counts displs st =
     (case jacobi_round_pre ar N nprocs counts displs st of
        None \<Rightarrow> None
      | Some st' \<Rightarrow>
         if fgt ar (global_error st') (TOLERANCE ar) \<and> iterations st' < MAX_ITER
         then jacobi_loop_pre ar N nprocs counts displs st'
         else Some st')"
  by pat_completeness auto

termination
  by (relation "measure (\<lambda>(ar, N, nprocs, counts, displs, st). MAX_ITER - iterations st)")
    (auto simp: jacobi_round_pre_def Let_def split: option.splits)

declare jacobi_loop_pre.simps [simp del]

definition jacobi_mpi_pre :: "'a arith \<Rightarrow> nat \<Rightarrow> 'a input_file \<Rightarrow> error + 'a report" where
  "jacobi_mpi_pre ar nprocs f =
     (case load f of
        Inl e \<Rightarrow> Inl e
      | Inr (N, A_full, b_full) \<Rightarrow>
         if N \<le> 0 then Inl InvalidN
         else
           (let counts = partition_counts (nat N) nprocs;
                displs = partition_displs (nat N) nprocs
            in case jacobi_loop_pre ar (nat N) nprocs counts displs
                      (init_solver ar (nat N) nprocs A_full b_full) of
                 None \<Rightarrow> Inl OutOfRange
               | Some st \<Rightarrow> Inr (report_of (nat N) st)))"

subsection \<open>Allocated sizes\<close>

text \<open>
  The sizes of the arrays of a rank, as allocated in lines 62-63 and 95-97, and the
  states in which the arrays of every rank have these sizes.
\<close>

definition wf_rank :: "nat \<Rightarrow> nat \<Rightarrow> nat \<Rightarrow> 'a rank_mem \<Rightarrow> bool" where
  "wf_rank N nprocs rank w \<longleftrightarrow>
     length (A_local w) = local_rows N nprocs rank * N \<and>
     length (b_local w) = local_rows N nprocs rank \<and>
     length (x_cur w) = N \<and> length (x_old w) = N \<and>
     length (x_local w) = local_rows N nprocs rank"

definition wf_solver :: "nat \<Rightarrow> nat \<Rightarrow> 'a solver \<Rightarrow> bool" where
  "wf_solver N nprocs st \<longleftrightarrow>
     length (ranks st) = nprocs \<and>
     (\<forall>rank<nprocs. wf_rank N nprocs rank (ranks st ! rank))"

subsection \<open>Closed forms\<close>

text \<open>
  What the loops of a round compute, written without the loops and without the checks
  of the indices. The lemmas below prove that the loops return these values.
  \<open>offdiag_sum\<close> is the value of \<open>sum\<close> after the inner loop, \<open>jacobi_value\<close> the
  value stored in \<open>x_local[li]\<close>, \<open>new_segment\<close> the array \<open>x_local\<close> after the
  sweep, \<open>new_x\<close> the gathered vector, \<open>local_error_of\<close> the local error, and
  \<open>next_solver\<close> the state after the round.
\<close>

definition offdiag_sum :: "'a arith \<Rightarrow> nat \<Rightarrow> 'a list \<Rightarrow> 'a list \<Rightarrow> nat \<Rightarrow> nat \<Rightarrow> 'a" where
  "offdiag_sum ar N Al xo li i =
     foldl (fadd ar) (fzero ar)
       (map (\<lambda>j. fmul ar (Al ! (li * N + j)) (xo ! j)) (filter (\<lambda>j. j \<noteq> i) [0..<N]))"

definition jacobi_value :: "'a arith \<Rightarrow> nat \<Rightarrow> 'a list \<Rightarrow> 'a list \<Rightarrow> 'a list \<Rightarrow> nat \<Rightarrow> nat \<Rightarrow> 'a" where
  "jacobi_value ar N Al bl xo li i =
     fdiv ar (fsub ar (bl ! li) (offdiag_sum ar N Al xo li i)) (Al ! (li * N + i))"

definition new_segment :: "'a arith \<Rightarrow> nat \<Rightarrow> nat \<Rightarrow> nat \<Rightarrow> 'a rank_mem \<Rightarrow> 'a list" where
  "new_segment ar N nprocs rank w =
     map (\<lambda>li. jacobi_value ar N (A_local w) (b_local w) (x_cur w) li
            (start_row N nprocs rank + li))
       [0..<local_rows N nprocs rank]"

definition new_x :: "'a arith \<Rightarrow> nat \<Rightarrow> nat \<Rightarrow> 'a rank_mem list \<Rightarrow> 'a list" where
  "new_x ar N nprocs ws =
     concat (map (\<lambda>rank. new_segment ar N nprocs rank (ws ! rank)) [0..<nprocs])"

definition next_rank :: "'a arith \<Rightarrow> nat \<Rightarrow> nat \<Rightarrow> 'a rank_mem list \<Rightarrow> nat \<Rightarrow> 'a rank_mem" where
  "next_rank ar N nprocs ws rank =
     (ws ! rank)\<lparr>x_cur := new_x ar N nprocs ws, x_old := x_cur (ws ! rank),
       x_local := new_segment ar N nprocs rank (ws ! rank)\<rparr>"

definition local_error_of :: "'a arith \<Rightarrow> nat \<Rightarrow> nat \<Rightarrow> nat \<Rightarrow> 'a rank_mem \<Rightarrow> 'a" where
  "local_error_of ar N nprocs rank w =
     foldl (fadd ar) (fzero ar)
       (map (\<lambda>li. fabs ar (fsub ar (x_cur w ! (start_row N nprocs rank + li))
                                  (x_old w ! (start_row N nprocs rank + li))))
          [0..<local_rows N nprocs rank])"

definition next_solver :: "'a arith \<Rightarrow> nat \<Rightarrow> nat \<Rightarrow> 'a solver \<Rightarrow> 'a solver" where
  "next_solver ar N nprocs st =
     \<lparr>ranks = map (next_rank ar N nprocs (ranks st)) [0..<nprocs],
      iterations = iterations st + 1,
      global_error =
        allreduce_sum ar
          (map (\<lambda>rank. local_error_of ar N nprocs rank (next_rank ar N nprocs (ranks st) rank))
             [0..<nprocs])\<rparr>"

text \<open>
  The global error of a round of a system of dimension 1 whose row goes from \<open>xo\<close> to
  \<open>xn\<close>: rank 0 adds \<open>|xn - xo|\<close> to \<open>0.0\<close>, every other rank contributes \<open>0.0\<close>.
\<close>

definition one_row_error :: "'a arith \<Rightarrow> nat \<Rightarrow> 'a \<Rightarrow> 'a \<Rightarrow> 'a" where
  "one_row_error ar nprocs xn xo =
     allreduce_sum ar
       (map (\<lambda>rank. if rank = 0 then fadd ar (fzero ar) (fabs ar (fsub ar xn xo)) else fzero ar)
          [0..<nprocs])"

subsection \<open>The row distribution is a balanced partition\<close>

lemma start_row_min:
  "start_row N nprocs rank = rank * base N nprocs + min rank (rem N nprocs)"
  by (simp add: start_row_def min_def)

lemma start_row_0: "start_row N nprocs 0 = 0"
  by (simp add: start_row_def)

lemma start_row_Suc:
  "start_row N nprocs (Suc rank) = start_row N nprocs rank + local_rows N nprocs rank"
  by (simp add: start_row_def local_rows_def)

lemma start_row_nprocs:
  assumes "0 < nprocs"
  shows "start_row N nprocs nprocs = N"
proof -
  from assms have "N mod nprocs < nprocs"
    by simp
  then have "\<not> nprocs < N mod nprocs"
    by simp
  then show ?thesis
    by (simp add: start_row_def base_def rem_def)
qed

lemma start_row_mono: "r \<le> r' \<Longrightarrow> start_row N nprocs r \<le> start_row N nprocs r'"
  unfolding start_row_min by (intro add_mono mult_le_mono1 min.mono) simp_all

lemma end_row_le_N: "rank < nprocs \<Longrightarrow> end_row N nprocs rank \<le> N"
proof -
  assume less: "rank < nprocs"
  then have "start_row N nprocs (Suc rank) \<le> start_row N nprocs nprocs"
    by (intro start_row_mono) simp
  with less show ?thesis
    by (simp add: end_row_def start_row_Suc start_row_nprocs)
qed

lemma sum_local_rows: "(\<Sum>k<r. local_rows N nprocs k) = start_row N nprocs r"
  by (induction r) (simp_all add: start_row_0 start_row_Suc)

lemma local_rows_antimono:
  "r \<le> r' \<Longrightarrow> local_rows N nprocs r' \<le> local_rows N nprocs r"
  by (simp add: local_rows_def)

lemma local_rows_balanced: "local_rows N nprocs r \<le> local_rows N nprocs r' + 1"
  by (simp add: local_rows_def)

lemma owner_exists:
  assumes "0 < nprocs" "i < N"
  shows "\<exists>r<nprocs. start_row N nprocs r \<le> i \<and> i < end_row N nprocs r"
proof -
  have "\<exists>r. r < k \<and> start_row N nprocs r \<le> i \<and> i < end_row N nprocs r"
    if "i < start_row N nprocs k" for k
    using that
  proof (induction k)
    case 0
    then show ?case by (simp add: start_row_0)
  next
    case (Suc k)
    show ?case
    proof (cases "i < start_row N nprocs k")
      case True
      with Suc.IH obtain r where "r < k" "start_row N nprocs r \<le> i" "i < end_row N nprocs r"
        by blast
      then show ?thesis
        using less_Suc_eq by blast
    next
      case False
      with Suc.prems have "start_row N nprocs k \<le> i \<and> i < end_row N nprocs k"
        by (simp add: end_row_def start_row_Suc)
      then show ?thesis by blast
    qed
  qed
  from this [of nprocs] assms show ?thesis
    by (simp add: start_row_nprocs)
qed

lemma ranges_disjoint:
  assumes "r < r'"
  shows "end_row N nprocs r \<le> start_row N nprocs r'"
proof -
  from assms have "start_row N nprocs (Suc r) \<le> start_row N nprocs r'"
    by (intro start_row_mono) simp
  then show ?thesis
    by (simp add: end_row_def start_row_Suc)
qed

lemma owner_unique:
  assumes "start_row N nprocs r \<le> i" "i < end_row N nprocs r"
    and "start_row N nprocs r' \<le> i" "i < end_row N nprocs r'"
  shows "r = r'"
proof (rule ccontr)
  assume "r \<noteq> r'"
  then consider "r < r'" | "r' < r"
    by (meson nat_neq_iff)
  then show False
  proof cases
    case 1
    from ranges_disjoint [OF this, of N nprocs] assms show False by simp
  next
    case 2
    from ranges_disjoint [OF this, of N nprocs] assms show False by simp
  qed
qed

subsection \<open>The coordinator's scatter arrays hold the same ranges\<close>

lemma scatter_body_simps:
  "sendcounts (scatter_body N nprocs r s) = (sendcounts s)[r := local_rows N nprocs r * N]"
  "displsA (scatter_body N nprocs r s) = (displsA s)[r := offset_elemsA s]"
  "sendcounts_b (scatter_body N nprocs r s) = (sendcounts_b s)[r := local_rows N nprocs r]"
  "displsb (scatter_body N nprocs r s) = (displsb s)[r := offset_rows s]"
  "offset_rows (scatter_body N nprocs r s) = offset_rows s + local_rows N nprocs r"
  "offset_elemsA (scatter_body N nprocs r s) = offset_elemsA s + local_rows N nprocs r * N"
  by (simp_all add: scatter_body_def local_rows_def Let_def)

lemma scatter_loop_length:
  "length (sendcounts (scatter_loop N nprocs r s)) = length (sendcounts s) \<and>
   length (displsA (scatter_loop N nprocs r s)) = length (displsA s) \<and>
   length (sendcounts_b (scatter_loop N nprocs r s)) = length (sendcounts_b s) \<and>
   length (displsb (scatter_loop N nprocs r s)) = length (displsb s)"
proof (induction N nprocs r s rule: scatter_loop.induct)
  case (1 N nprocs r s)
  show ?case
  proof (cases "r < nprocs")
    case True
    with "1.IH" show ?thesis
      by (subst (1 2 3 4) scatter_loop.simps) (simp add: scatter_body_simps)
  next
    case False
    then show ?thesis
      by (subst (1 2 3 4) scatter_loop.simps) simp
  qed
qed

lemma scatter_loop_below:
  "k < r \<Longrightarrow>
   sendcounts (scatter_loop N nprocs r s) ! k = sendcounts s ! k \<and>
   displsA (scatter_loop N nprocs r s) ! k = displsA s ! k \<and>
   sendcounts_b (scatter_loop N nprocs r s) ! k = sendcounts_b s ! k \<and>
   displsb (scatter_loop N nprocs r s) ! k = displsb s ! k"
proof (induction N nprocs r s rule: scatter_loop.induct)
  case (1 N nprocs r s)
  show ?case
  proof (cases "r < nprocs")
    case True
    with "1.IH" "1.prems" show ?thesis
      by (subst (1 2 3 4) scatter_loop.simps) (simp add: scatter_body_simps)
  next
    case False
    then show ?thesis
      by (subst (1 2 3 4) scatter_loop.simps) simp
  qed
qed

lemma scatter_loop_writes:
  assumes "r \<le> k" "k < nprocs"
    and "length (sendcounts s) = nprocs" "length (displsA s) = nprocs"
    and "length (sendcounts_b s) = nprocs" "length (displsb s) = nprocs"
    and "offset_rows s = start_row N nprocs r"
    and "offset_elemsA s = start_row N nprocs r * N"
  shows "sendcounts (scatter_loop N nprocs r s) ! k = local_rows N nprocs k * N \<and>
         displsA (scatter_loop N nprocs r s) ! k = start_row N nprocs k * N \<and>
         sendcounts_b (scatter_loop N nprocs r s) ! k = local_rows N nprocs k \<and>
         displsb (scatter_loop N nprocs r s) ! k = start_row N nprocs k"
  using assms
proof (induction N nprocs r s rule: scatter_loop.induct)
  case (1 N nprocs r s)
  from "1.prems" have less: "r < nprocs"
    by simp
  show ?case
  proof (cases "k = r")
    case True
    with less "1.prems" scatter_loop_below [of r "r + 1" N nprocs "scatter_body N nprocs r s"]
    show ?thesis
      by (subst (1 2 3 4) scatter_loop.simps) (simp add: scatter_body_simps)
  next
    case False
    with "1.prems" have "r + 1 \<le> k"
      by simp
    with less "1.prems" "1.IH" show ?thesis
      by (subst (1 2 3 4) scatter_loop.simps)
        (simp add: scatter_body_simps start_row_Suc add_mult_distrib)
  qed
qed

lemma scatter_setup_arrays:
  assumes "rank < nprocs"
  shows "sendcounts (scatter_setup N nprocs) ! rank = local_rows N nprocs rank * N"
    and "displsA (scatter_setup N nprocs) ! rank = start_row N nprocs rank * N"
    and "sendcounts_b (scatter_setup N nprocs) ! rank = local_rows N nprocs rank"
    and "displsb (scatter_setup N nprocs) ! rank = start_row N nprocs rank"
  using assms scatter_loop_writes [of 0 rank nprocs _ N]
  by (simp_all add: scatter_setup_def start_row_0)

lemma scatter_setup_length:
  "length (sendcounts (scatter_setup N nprocs)) = nprocs"
  "length (displsA (scatter_setup N nprocs)) = nprocs"
  "length (sendcounts_b (scatter_setup N nprocs)) = nprocs"
  "length (displsb (scatter_setup N nprocs)) = nprocs"
  by (simp_all add: scatter_setup_def scatter_loop_length)

text \<open>
  C2. For \<open>N \<ge> 1\<close> rows and \<open>nprocs \<ge> 1\<close> ranks, the ranges
  \<open>[start_row, start_row + local_rows)\<close> computed from \<open>base = N / nprocs\<close> and
  \<open>rem = N % nprocs\<close> give every row index below \<open>N\<close> to exactly one rank; they
  start at 0, each begins where the previous one ends and the last ends at \<open>N\<close>, so they
  are contiguous and do not overlap; their sizes add up to \<open>N\<close>; two sizes differ by at
  most 1; the ranks below \<open>N mod nprocs\<close> are the ones with the extra row; and the counts
  and displacements the coordinator computes for the scatter of \<open>b\<close> are the same
  ranges. When \<open>N * N \<le> INT_MAX\<close>, so that the \<open>int\<close> products of lines 79-84 do
  not overflow, the counts and displacements for the scatter of \<open>A\<close> are these ranges
  in units of \<open>N\<close> elements, and every value the loop computes fits an \<open>int\<close>.
\<close>

theorem row_partition:
  assumes "1 \<le> N" and "1 \<le> nprocs"
  shows "(\<forall>i<N. \<exists>!r. r < nprocs \<and> start_row N nprocs r \<le> i \<and> i < end_row N nprocs r) \<and>
         start_row N nprocs 0 = 0 \<and>
         (\<forall>r. r + 1 < nprocs \<longrightarrow> start_row N nprocs (r + 1) = end_row N nprocs r) \<and>
         end_row N nprocs (nprocs - 1) = N \<and>
         (\<forall>r r'. r < r' \<longrightarrow> end_row N nprocs r \<le> start_row N nprocs r') \<and>
         (\<Sum>r<nprocs. local_rows N nprocs r) = N \<and>
         (\<forall>r r'. local_rows N nprocs r \<le> local_rows N nprocs r' + 1) \<and>
         (\<forall>r. local_rows N nprocs r = N div nprocs + (if r < N mod nprocs then 1 else 0)) \<and>
         (\<forall>r<nprocs.
            sendcounts_b (scatter_setup N nprocs) ! r = local_rows N nprocs r \<and>
            displsb (scatter_setup N nprocs) ! r = start_row N nprocs r \<and>
            displsb (scatter_setup N nprocs) ! r + sendcounts_b (scatter_setup N nprocs) ! r \<le> N) \<and>
         (N * N \<le> INT_MAX \<longrightarrow>
            (\<forall>r<nprocs.
               sendcounts (scatter_setup N nprocs) ! r = local_rows N nprocs r * N \<and>
               displsA (scatter_setup N nprocs) ! r = start_row N nprocs r * N \<and>
               displsA (scatter_setup N nprocs) ! r + sendcounts (scatter_setup N nprocs) ! r
                 \<le> INT_MAX))"
proof -
  from assms have pos: "0 < nprocs"
    by simp
  have rows: "start_row N nprocs r + local_rows N nprocs r \<le> N" if "r < nprocs" for r
    using end_row_le_N [OF that, of N] by (simp add: end_row_def)
  have elems: "start_row N nprocs r * N + local_rows N nprocs r * N \<le> INT_MAX"
    if "r < nprocs" "N * N \<le> INT_MAX" for r
  proof -
    from rows [OF that(1)] have "(start_row N nprocs r + local_rows N nprocs r) * N \<le> N * N"
      by (rule mult_le_mono1)
    with that(2) show ?thesis
      by (simp add: add_mult_distrib)
  qed
  have owner: "\<exists>!r. r < nprocs \<and> start_row N nprocs r \<le> i \<and> i < end_row N nprocs r"
    if "i < N" for i
  proof -
    from owner_exists [OF pos that] obtain r
      where r: "r < nprocs" "start_row N nprocs r \<le> i" "i < end_row N nprocs r"
      by blast
    show ?thesis
    proof (rule ex1I [of _ r])
      from r show "r < nprocs \<and> start_row N nprocs r \<le> i \<and> i < end_row N nprocs r"
        by simp
    next
      fix r'
      assume "r' < nprocs \<and> start_row N nprocs r' \<le> i \<and> i < end_row N nprocs r'"
      with r show "r' = r"
        using owner_unique [of N nprocs r' i r] by simp
    qed
  qed
  have last: "end_row N nprocs (nprocs - 1) = N"
    using pos start_row_Suc [of N nprocs "nprocs - 1"] start_row_nprocs [OF pos, of N]
    by (simp add: end_row_def)
  have total: "(\<Sum>r<nprocs. local_rows N nprocs r) = N"
    by (simp add: sum_local_rows start_row_nprocs [OF pos])
  show ?thesis
    using owner last total rows elems
    by (simp add: start_row_0 start_row_Suc end_row_def [symmetric] ranges_disjoint
        local_rows_balanced scatter_setup_arrays)
      (simp add: local_rows_def base_def rem_def)
qed

theorem row_partition_witness:
  "(1::nat) \<le> 5 \<and> (1::nat) \<le> 3 \<and> (5::nat) * 5 \<le> INT_MAX \<and>
   (\<exists>!r. r < 3 \<and> start_row 5 3 r \<le> 4 \<and> 4 < end_row 5 3 r) \<and>
   (\<Sum>r<3. local_rows 5 3 r) = 5 \<and>
   map (local_rows 5 3) [0, 1, 2] = [2, 2, 1] \<and>
   map (start_row 5 3) [0, 1, 2] = [0, 2, 4] \<and>
   sendcounts_b (scatter_setup 5 3) ! 1 = 2 \<and> displsb (scatter_setup 5 3) ! 1 = 2 \<and>
   sendcounts (scatter_setup 5 3) ! 1 = 10 \<and> displsA (scatter_setup 5 3) ! 1 = 10"
  using row_partition [of 5 3]
  by (simp add: local_rows_def start_row_def base_def rem_def INT_MAX_def)

subsection \<open>The loops of a sweep return the closed forms\<close>

lemma copy_loop_from:
  assumes "i \<le> N" "length (x_cur w) = N" "length (x_old w) = N"
  shows "copy_loop N w i = Some (w\<lparr>x_old := take i (x_old w) @ drop i (x_cur w)\<rparr>)"
  using assms
proof (induction N w i rule: copy_loop.induct)
  case (1 N w i)
  show ?case
  proof (cases "i < N")
    case True
    let ?v = "x_cur w ! i"
    let ?w = "w\<lparr>x_old := (x_old w)[i := ?v]\<rparr>"
    from True "1.prems" have rd: "rd (x_cur w) i = Some ?v"
      and wr: "wr (x_old w) i ?v = Some ((x_old w)[i := ?v])"
      by (simp_all add: rd_def wr_def)
    from True "1.prems" have "copy_loop N ?w (i + 1) =
        Some (?w\<lparr>x_old := take (i + 1) (x_old ?w) @ drop (i + 1) (x_cur ?w)\<rparr>)"
      by (intro "1.IH" [OF True rd wr]) simp_all
    moreover from True "1.prems"
    have "take (i + 1) ((x_old w)[i := ?v]) @ drop (i + 1) (x_cur w) =
        take i (x_old w) @ drop i (x_cur w)"
      by (simp add: take_Suc_conv_app_nth Cons_nth_drop_Suc)
    ultimately show ?thesis
      using True rd wr by (subst copy_loop.simps) simp
  next
    case False
    with "1.prems" show ?thesis
      by (subst copy_loop.simps) simp
  qed
qed

lemma copy_loop_Some:
  assumes "length (x_cur w) = N" "length (x_old w) = N"
  shows "copy_loop N w 0 = Some (w\<lparr>x_old := x_cur w\<rparr>)"
  using copy_loop_from [of 0 N w] assms by simp

lemma row_sum_from:
  assumes "j \<le> N" "li * N + N \<le> length (A_local w)" "length (x_old w) = N"
  shows "row_sum ar N w li i j sm =
     Some (foldl (fadd ar) sm
       (map (\<lambda>j. fmul ar (A_local w ! (li * N + j)) (x_old w ! j))
          (filter (\<lambda>j. j \<noteq> i) [j..<N])))"
  using assms
proof (induction ar N w li i j sm rule: row_sum.induct)
  case (1 ar N w li i j sm)
  show ?case
  proof (cases "j < N")
    case True
    then have upt: "[j..<N] = j # [j + 1..<N]"
      by (simp add: upt_conv_Cons)
    from True "1.prems" have rdA: "rd (A_local w) (li * N + j) = Some (A_local w ! (li * N + j))"
      and rdx: "rd (x_old w) j = Some (x_old w ! j)"
      by (simp_all add: rd_def)
    show ?thesis
    proof (cases "j = i")
      case True
      with \<open>j < N\<close> "1.IH"(2) "1.prems" upt show ?thesis
        by (subst row_sum.simps) simp
    next
      case False
      with \<open>j < N\<close> "1.IH"(1) [OF _ _ rdA rdx] "1.prems" upt rdA rdx show ?thesis
        by (subst row_sum.simps) simp
    qed
  next
    case False
    with "1.prems" show ?thesis
      by (subst row_sum.simps) simp
  qed
qed

lemma row_sum_Some:
  assumes "li * N + N \<le> length (A_local w)" "length (x_old w) = N"
  shows "row_sum ar N w li i 0 (fzero ar) = Some (offdiag_sum ar N (A_local w) (x_old w) li i)"
  using row_sum_from [of 0 N li w ar i] assms by (simp add: offdiag_sum_def)

lemma update_rows_from:
  assumes "li \<le> local_rows N nprocs rank"
    and "length (A_local w) = local_rows N nprocs rank * N"
    and "length (b_local w) = local_rows N nprocs rank"
    and "length (x_old w) = N"
    and "length (x_local w) = local_rows N nprocs rank"
    and "end_row N nprocs rank \<le> N"
  shows "update_rows ar N nprocs rank w li =
     Some (w\<lparr>x_local := take li (x_local w) @
        map (\<lambda>li. jacobi_value ar N (A_local w) (b_local w) (x_old w) li
               (start_row N nprocs rank + li))
          [li..<local_rows N nprocs rank]\<rparr>)"
  using assms
proof (induction ar N nprocs rank w li rule: update_rows.induct)
  case (1 ar N nprocs rank w li)
  let ?L = "local_rows N nprocs rank"
  let ?i = "start_row N nprocs rank + li"
  show ?case
  proof (cases "li < ?L")
    case True
    let ?v = "jacobi_value ar N (A_local w) (b_local w) (x_old w) li ?i"
    let ?w = "w\<lparr>x_local := (x_local w)[li := ?v]\<rparr>"
    from True have "Suc li * N \<le> ?L * N"
      by (intro mult_le_mono1) simp
    with "1.prems" have rows: "li * N + N \<le> length (A_local w)"
      by simp
    from True "1.prems" have i: "?i < N"
      by (simp add: end_row_def)
    have sum: "row_sum ar N w li ?i 0 (fzero ar) =
        Some (offdiag_sum ar N (A_local w) (x_old w) li ?i)"
      using rows "1.prems" by (intro row_sum_Some) simp_all
    from True "1.prems" have rdb: "rd (b_local w) li = Some (b_local w ! li)"
      by (simp add: rd_def)
    from i rows have rdA: "rd (A_local w) (li * N + ?i) = Some (A_local w ! (li * N + ?i))"
      by (simp add: rd_def)
    from True "1.prems" have wr: "wr (x_local w) li ?v = Some ((x_local w)[li := ?v])"
      by (simp add: wr_def)
    from True "1.prems" have "update_rows ar N nprocs rank ?w (li + 1) =
        Some (?w\<lparr>x_local := take (li + 1) (x_local ?w) @
          map (\<lambda>li. jacobi_value ar N (A_local ?w) (b_local ?w) (x_old ?w) li
                 (start_row N nprocs rank + li))
            [li + 1..<?L]\<rparr>)"
      by (intro "1.IH" [OF True refl sum rdb rdA]) (simp_all add: wr [unfolded jacobi_value_def] jacobi_value_def)
    moreover from True have "[li..<?L] = li # [li + 1..<?L]"
      by (simp add: upt_conv_Cons)
    moreover from True "1.prems"
    have "take (li + 1) ((x_local w)[li := ?v]) = take li (x_local w) @ [?v]"
      by (simp add: take_Suc_conv_app_nth)
    ultimately show ?thesis
      using True sum rdb rdA wr
      by (subst update_rows.simps) (simp add: Let_def jacobi_value_def)
  next
    case False
    with "1.prems" show ?thesis
      by (subst update_rows.simps) simp
  qed
qed

lemma error_loop_from:
  assumes "li \<le> local_rows N nprocs rank"
    and "length (x_cur w) = N" "length (x_old w) = N"
    and "end_row N nprocs rank \<le> N"
  shows "error_loop ar N nprocs rank w li e =
     Some (foldl (fadd ar) e
       (map (\<lambda>li. fabs ar (fsub ar (x_cur w ! (start_row N nprocs rank + li))
                                  (x_old w ! (start_row N nprocs rank + li))))
          [li..<local_rows N nprocs rank]))"
  using assms
proof (induction ar N nprocs rank w li e rule: error_loop.induct)
  case (1 ar N nprocs rank w li e)
  let ?L = "local_rows N nprocs rank"
  let ?i = "start_row N nprocs rank + li"
  show ?case
  proof (cases "li < ?L")
    case True
    with "1.prems" have i: "?i < N"
      by (simp add: end_row_def)
    with "1.prems" have rdx: "rd (x_cur w) ?i = Some (x_cur w ! ?i)"
      and rdo: "rd (x_old w) ?i = Some (x_old w ! ?i)"
      by (simp_all add: rd_def)
    from True have upt: "[li..<?L] = li # [li + 1..<?L]"
      by (simp add: upt_conv_Cons)
    from True "1.prems" "1.IH" [OF True refl rdx rdo] rdx rdo upt show ?thesis
      by (subst error_loop.simps) (simp add: Let_def)
  next
    case False
    with "1.prems" show ?thesis
      by (subst error_loop.simps) simp
  qed
qed

lemma those_map_Some:
  "(\<And>a. a \<in> set xs \<Longrightarrow> f a = Some (g a)) \<Longrightarrow> those (map f xs) = Some (map g xs)"
  by (induction xs) simp_all

subsection \<open>The gather arrays and the gathered vector\<close>

lemma gather_body_simps:
  "rcounts (gather_body N nprocs r g) = (rcounts g)[r := local_rows N nprocs r]"
  "rdispls (gather_body N nprocs r g) = (rdispls g)[r := offset g]"
  "offset (gather_body N nprocs r g) = offset g + local_rows N nprocs r"
  by (simp_all add: gather_body_def local_rows_def Let_def)

lemma gather_loop_length:
  "length (rcounts (gather_loop N nprocs r g)) = length (rcounts g) \<and>
   length (rdispls (gather_loop N nprocs r g)) = length (rdispls g)"
proof (induction N nprocs r g rule: gather_loop.induct)
  case (1 N nprocs r g)
  show ?case
  proof (cases "r < nprocs")
    case True
    with "1.IH" show ?thesis
      by (subst (1 2) gather_loop.simps) (simp add: gather_body_simps)
  next
    case False
    then show ?thesis
      by (subst (1 2) gather_loop.simps) simp
  qed
qed

lemma gather_loop_below:
  "k < r \<Longrightarrow>
   rcounts (gather_loop N nprocs r g) ! k = rcounts g ! k \<and>
   rdispls (gather_loop N nprocs r g) ! k = rdispls g ! k"
proof (induction N nprocs r g rule: gather_loop.induct)
  case (1 N nprocs r g)
  show ?case
  proof (cases "r < nprocs")
    case True
    with "1.IH" "1.prems" show ?thesis
      by (subst (1 2) gather_loop.simps) (simp add: gather_body_simps)
  next
    case False
    then show ?thesis
      by (subst (1 2) gather_loop.simps) simp
  qed
qed

lemma gather_loop_writes:
  assumes "r \<le> k" "k < nprocs"
    and "length (rcounts g) = nprocs" "length (rdispls g) = nprocs"
    and "offset g = start_row N nprocs r"
  shows "rcounts (gather_loop N nprocs r g) ! k = local_rows N nprocs k \<and>
         rdispls (gather_loop N nprocs r g) ! k = start_row N nprocs k"
  using assms
proof (induction N nprocs r g rule: gather_loop.induct)
  case (1 N nprocs r g)
  from "1.prems" have less: "r < nprocs"
    by simp
  show ?case
  proof (cases "k = r")
    case True
    with less "1.prems" gather_loop_below [of r "r + 1" N nprocs "gather_body N nprocs r g"]
    show ?thesis
      by (subst (1 2) gather_loop.simps) (simp add: gather_body_simps)
  next
    case False
    with "1.prems" have "r + 1 \<le> k"
      by simp
    with less "1.prems" "1.IH" show ?thesis
      by (subst (1 2) gather_loop.simps) (simp add: gather_body_simps start_row_Suc)
  qed
qed

lemma gather_setup_arrays:
  assumes "rank < nprocs"
  shows "rcounts (gather_setup N nprocs) ! rank = local_rows N nprocs rank"
    and "rdispls (gather_setup N nprocs) ! rank = start_row N nprocs rank"
  using assms gather_loop_writes [of 0 rank nprocs _ N]
  by (simp_all add: gather_setup_def start_row_0)

lemma gather_setup_length:
  "length (rcounts (gather_setup N nprocs)) = nprocs"
  "length (rdispls (gather_setup N nprocs)) = nprocs"
  by (simp_all add: gather_setup_def gather_loop_length)

lemma gather_arrays_eq_scatter:
  "rcounts (gather_setup N nprocs) = sendcounts_b (scatter_setup N nprocs)"
  "rdispls (gather_setup N nprocs) = displsb (scatter_setup N nprocs)"
  by (rule nth_equalityI;
      simp add: gather_setup_length scatter_setup_length gather_setup_arrays scatter_setup_arrays)+

lemma write_at_eq:
  "k + length vs \<le> length buf \<Longrightarrow>
   write_at buf k vs = take k buf @ vs @ drop (k + length vs) buf"
proof (induction vs arbitrary: buf k)
  case Nil
  then show ?case by simp
next
  case (Cons v vs)
  from Cons.prems have "k < length buf"
    by simp
  with Cons.IH [of "Suc k" "buf[k := v]"] Cons.prems show ?case
    by (simp add: take_Suc_conv_app_nth)
qed

lemma length_concat_take:
  assumes "r \<le> length segs"
    and "\<And>k. k < length segs \<Longrightarrow> length (segs ! k) = local_rows N nprocs k"
  shows "length (concat (take r segs)) = start_row N nprocs r"
  using assms(1)
proof (induction r)
  case 0
  then show ?case by (simp add: start_row_0)
next
  case (Suc r)
  then show ?case
    by (simp add: take_Suc_conv_app_nth start_row_Suc assms(2))
qed

lemma gatherv_fold:
  assumes "r \<le> nprocs" "length segs = nprocs" "length buf = N"
    and segs: "\<And>k. k < nprocs \<Longrightarrow> length (segs ! k) = local_rows N nprocs k"
    and counts: "\<And>k. k < nprocs \<Longrightarrow> counts ! k = local_rows N nprocs k"
    and displs: "\<And>k. k < nprocs \<Longrightarrow> displs ! k = start_row N nprocs k"
  shows "foldl (\<lambda>buf r. write_at buf (displs ! r) (take (counts ! r) (segs ! r))) buf [0..<r] =
         concat (take r segs) @ drop (start_row N nprocs r) buf"
  using assms(1)
proof (induction r)
  case 0
  then show ?case by (simp add: start_row_0)
next
  case (Suc r)
  let ?pre = "concat (take r segs)"
  from Suc.prems have r: "r < nprocs"
    by simp
  have len: "length ?pre = start_row N nprocs r"
    using r assms(2) segs by (intro length_concat_take) simp_all
  from end_row_le_N [OF r, of N] have fits: "start_row N nprocs r + local_rows N nprocs r \<le> N"
    by (simp add: end_row_def)
  have "write_at (?pre @ drop (start_row N nprocs r) buf) (start_row N nprocs r) (segs ! r) =
        ?pre @ segs ! r @ drop (start_row N nprocs (Suc r)) buf"
    using len fits assms(3) segs [OF r]
    by (subst write_at_eq) (simp_all add: start_row_Suc add.commute)
  with Suc.IH r assms(2) segs [OF r] counts [OF r] displs [OF r] show ?case
    by (simp add: take_Suc_conv_app_nth)
qed

lemma gatherv_concat:
  assumes "0 < nprocs" "length segs = nprocs" "length buf = N"
    and "\<And>k. k < nprocs \<Longrightarrow> length (segs ! k) = local_rows N nprocs k"
  shows "gatherv buf segs (rcounts (gather_setup N nprocs)) (rdispls (gather_setup N nprocs)) =
         concat segs"
  using gatherv_fold [of nprocs nprocs segs buf N "rcounts (gather_setup N nprocs)"
      "rdispls (gather_setup N nprocs)"] assms
  by (simp add: gatherv_def gather_setup_arrays start_row_nprocs)

lemma concat_nth_owner:
  assumes "r < length segs" "li < local_rows N nprocs r"
    and segs: "\<And>k. k < length segs \<Longrightarrow> length (segs ! k) = local_rows N nprocs k"
  shows "concat segs ! (start_row N nprocs r + li) = segs ! r ! li"
proof -
  have "concat segs = concat (take r segs) @ segs ! r @ concat (drop (Suc r) segs)"
    using assms(1) by (subst id_take_nth_drop [of r segs]) simp_all
  moreover have "length (concat (take r segs)) = start_row N nprocs r"
    using assms(1) segs by (intro length_concat_take) simp_all
  ultimately show ?thesis
    using assms(2) segs [OF assms(1)] by (simp add: nth_append)
qed

subsection \<open>A round returns the closed form\<close>

lemma compute_phase_Some:
  assumes "wf_rank N nprocs rank w" "rank < nprocs"
  shows "compute_phase ar N nprocs rank w =
     Some (w\<lparr>x_old := x_cur w, x_local := new_segment ar N nprocs rank w\<rparr>)"
proof -
  from assms(1) have copy: "copy_loop N w 0 = Some (w\<lparr>x_old := x_cur w\<rparr>)"
    by (intro copy_loop_Some) (simp_all add: wf_rank_def)
  from assms end_row_le_N [OF assms(2), of N]
  have "update_rows ar N nprocs rank (w\<lparr>x_old := x_cur w\<rparr>) 0 =
      Some (w\<lparr>x_old := x_cur w, x_local := new_segment ar N nprocs rank w\<rparr>)"
    by (subst update_rows_from) (simp_all add: wf_rank_def new_segment_def)
  with copy show ?thesis
    by (simp add: compute_phase_def)
qed

lemma length_new_segment [simp]:
  "length (new_segment ar N nprocs rank w) = local_rows N nprocs rank"
  by (simp add: new_segment_def)

lemma length_new_x:
  assumes "0 < nprocs"
  shows "length (new_x ar N nprocs ws) = N"
proof -
  let ?segs = "map (\<lambda>rank. new_segment ar N nprocs rank (ws ! rank)) [0..<nprocs]"
  have "length (concat (take nprocs ?segs)) = start_row N nprocs nprocs"
    by (intro length_concat_take) simp_all
  with assms show ?thesis
    by (simp add: new_x_def start_row_nprocs)
qed

lemma new_x_nth:
  assumes "rank < nprocs" "li < local_rows N nprocs rank"
  shows "new_x ar N nprocs ws ! (start_row N nprocs rank + li) =
         new_segment ar N nprocs rank (ws ! rank) ! li"
proof -
  let ?segs = "map (\<lambda>rank. new_segment ar N nprocs rank (ws ! rank)) [0..<nprocs]"
  from assms have "concat ?segs ! (start_row N nprocs rank + li) = ?segs ! rank ! li"
    by (intro concat_nth_owner) simp_all
  with assms(1) show ?thesis
    by (simp add: new_x_def)
qed

lemma compute_all_Some:
  assumes "wf_solver N nprocs st"
  shows "compute_all ar N nprocs (ranks st) =
     Some (map (\<lambda>rank. (ranks st ! rank)\<lparr>x_old := x_cur (ranks st ! rank),
                  x_local := new_segment ar N nprocs rank (ranks st ! rank)\<rparr>) [0..<nprocs])"
  unfolding compute_all_def
  using assms by (intro those_map_Some compute_phase_Some) (simp_all add: wf_solver_def)

lemma gather_bcast_eq:
  assumes "wf_solver N nprocs st" "0 < nprocs"
  shows "gather_bcast N nprocs
       (map (\<lambda>rank. (ranks st ! rank)\<lparr>x_old := x_cur (ranks st ! rank),
               x_local := new_segment ar N nprocs rank (ranks st ! rank)\<rparr>) [0..<nprocs]) =
     map (next_rank ar N nprocs (ranks st)) [0..<nprocs]"
proof -
  let ?ws1 = "map (\<lambda>rank. (ranks st ! rank)\<lparr>x_old := x_cur (ranks st ! rank),
               x_local := new_segment ar N nprocs rank (ranks st ! rank)\<rparr>) [0..<nprocs]"
  have segs: "map x_local ?ws1 =
      map (\<lambda>rank. new_segment ar N nprocs rank (ranks st ! rank)) [0..<nprocs]"
    by simp
  from assms have "length (x_cur (?ws1 ! 0)) = N"
    by (simp add: wf_solver_def wf_rank_def)
  with assms(2) have "gatherv (x_cur (?ws1 ! 0)) (map x_local ?ws1)
      (rcounts (gather_setup N nprocs)) (rdispls (gather_setup N nprocs)) =
      concat (map x_local ?ws1)"
    by (intro gatherv_concat) simp_all
  then show ?thesis
    unfolding gather_bcast_def Let_def segs
    by (simp add: next_rank_def new_x_def)
qed

lemma local_errors_Some:
  assumes "wf_solver N nprocs st" "0 < nprocs"
  shows "local_errors ar N nprocs (map (next_rank ar N nprocs (ranks st)) [0..<nprocs]) =
     Some (map (\<lambda>rank. local_error_of ar N nprocs rank (next_rank ar N nprocs (ranks st) rank))
       [0..<nprocs])"
  unfolding local_errors_def
proof (rule those_map_Some)
  fix rank
  assume "rank \<in> set [0..<nprocs]"
  then have rank: "rank < nprocs"
    by simp
  from assms rank have "length (x_old (next_rank ar N nprocs (ranks st) rank)) = N"
    by (simp add: next_rank_def wf_solver_def wf_rank_def)
  moreover from assms(2) have "length (x_cur (next_rank ar N nprocs (ranks st) rank)) = N"
    by (simp add: next_rank_def length_new_x)
  ultimately show "error_loop ar N nprocs rank
        (map (next_rank ar N nprocs (ranks st)) [0..<nprocs] ! rank) 0 (fzero ar) =
      Some (local_error_of ar N nprocs rank (next_rank ar N nprocs (ranks st) rank))"
    using rank end_row_le_N [OF rank, of N]
    by (subst error_loop_from) (simp_all add: local_error_of_def)
qed

lemma jacobi_round_Some:
  assumes "wf_solver N nprocs st" "0 < nprocs"
  shows "jacobi_round ar N nprocs st = Some (next_solver ar N nprocs st)"
  unfolding jacobi_round_def
  by (simp add: compute_all_Some [OF assms(1)] gather_bcast_eq [OF assms]
      local_errors_Some [OF assms] next_solver_def)

lemma wf_next_solver:
  assumes "wf_solver N nprocs st" "0 < nprocs"
  shows "wf_solver N nprocs (next_solver ar N nprocs st)"
  using assms
  by (simp add: wf_solver_def wf_rank_def next_solver_def next_rank_def length_new_x)

subsection \<open>The loop runs rounds until its condition fails\<close>

lemma jacobi_loop_unfold:
  assumes "wf_solver N nprocs st" "0 < nprocs"
  shows "jacobi_loop ar N nprocs st =
     (if loop_cond ar (next_solver ar N nprocs st)
      then jacobi_loop ar N nprocs (next_solver ar N nprocs st)
      else Some (next_solver ar N nprocs st))"
  by (subst jacobi_loop.simps) (simp add: jacobi_round_Some [OF assms] loop_cond_def)

lemma wf_funpow:
  assumes "wf_solver N nprocs st" "0 < nprocs"
  shows "wf_solver N nprocs ((next_solver ar N nprocs ^^ k) st)"
  by (induction k) (simp_all add: assms wf_next_solver)

lemma iterations_next:
  "iterations (next_solver ar N nprocs st) = iterations st + 1"
  by (simp add: next_solver_def)

lemma iterations_funpow:
  "iterations ((next_solver ar N nprocs ^^ k) st) = iterations st + k"
  by (induction k) (simp_all add: iterations_next)

lemma jacobi_loop_rounds:
  assumes "wf_solver N nprocs st" "0 < nprocs"
  shows "\<exists>k\<ge>1. jacobi_loop ar N nprocs st = Some ((next_solver ar N nprocs ^^ k) st) \<and>
           \<not> loop_cond ar ((next_solver ar N nprocs ^^ k) st) \<and>
           (\<forall>j. 1 \<le> j \<and> j < k \<longrightarrow> loop_cond ar ((next_solver ar N nprocs ^^ j) st))"
  using assms
proof (induction ar N nprocs st rule: jacobi_loop.induct)
  case (1 ar N nprocs st)
  let ?next = "next_solver ar N nprocs"
  note unfold = jacobi_loop_unfold [OF "1.prems", of ar]
  show ?case
  proof (cases "loop_cond ar (?next st)")
    case True
    have "\<exists>k\<ge>1. jacobi_loop ar N nprocs (?next st) = Some ((?next ^^ k) (?next st)) \<and>
           \<not> loop_cond ar ((?next ^^ k) (?next st)) \<and>
           (\<forall>j. 1 \<le> j \<and> j < k \<longrightarrow> loop_cond ar ((?next ^^ j) (?next st)))"
    proof (rule "1.IH" [OF jacobi_round_Some [OF "1.prems"]])
      from True show "fgt ar (global_error (?next st)) (TOLERANCE ar) \<and>
          iterations (?next st) < MAX_ITER"
        by (simp add: loop_cond_def)
      from "1.prems" show "wf_solver N nprocs (?next st)"
        by (rule wf_next_solver)
      from "1.prems" show "0 < nprocs"
        by simp
    qed
    then obtain k where k: "1 \<le> k"
      "jacobi_loop ar N nprocs (?next st) = Some ((?next ^^ k) (?next st))"
      "\<not> loop_cond ar ((?next ^^ k) (?next st))"
      "\<And>j. 1 \<le> j \<Longrightarrow> j < k \<Longrightarrow> loop_cond ar ((?next ^^ j) (?next st))"
      by blast
    have shift: "(?next ^^ Suc j) st = (?next ^^ j) (?next st)" for j
      by (simp only: funpow_Suc_right o_apply)
    have cond: "loop_cond ar ((?next ^^ j) st)" if "1 \<le> j" "j < Suc k" for j
    proof (cases j)
      case 0
      with that show ?thesis by simp
    next
      case (Suc j')
      show ?thesis
      proof (cases "j' = 0")
        case True
        with Suc \<open>loop_cond ar (?next st)\<close> show ?thesis by simp
      next
        case False
        with Suc that k(4) [of j'] show ?thesis
          by (simp add: shift del: funpow.simps)
      qed
    qed
    from k(2) True unfold have "jacobi_loop ar N nprocs st = Some ((?next ^^ Suc k) st)"
      by (simp add: shift del: funpow.simps)
    moreover from k(3) have "\<not> loop_cond ar ((?next ^^ Suc k) st)"
      by (simp add: shift del: funpow.simps)
    ultimately show ?thesis
      using cond by (intro exI [of _ "Suc k"]) simp
  next
    case False
    with unfold show ?thesis
      by (intro exI [of _ 1]) simp
  qed
qed

subsection \<open>The initial state and the result of the program\<close>

lemma wf_init_rank:
  assumes "length A_full = N * N" "length b_full = N" "rank < nprocs"
  shows "wf_rank N nprocs rank (init_rank ar N nprocs A_full b_full rank)"
proof -
  from end_row_le_N [OF assms(3), of N]
  have fits: "start_row N nprocs rank + local_rows N nprocs rank \<le> N"
    by (simp add: end_row_def)
  then have "(start_row N nprocs rank + local_rows N nprocs rank) * N \<le> N * N"
    by (rule mult_le_mono1)
  then have "local_rows N nprocs rank * N \<le> N * N - start_row N nprocs rank * N"
    by (simp add: add_mult_distrib)
  with fits assms show ?thesis
    by (simp add: wf_rank_def init_rank_def Let_def scatterv_def scatter_setup_arrays)
qed

lemma wf_init_solver:
  assumes "length A_full = N * N" "length b_full = N"
  shows "wf_solver N nprocs (init_solver ar N nprocs A_full b_full)"
  using assms by (simp add: wf_solver_def init_solver_def wf_init_rank)

lemma load_File:
  assumes "nat N * nat N + nat N \<le> length ds"
  shows "load (File (Some N) ds) =
     Inr (N, take (nat N * nat N) ds, take (nat N) (drop (nat N * nat N) ds))"
  using assms by (simp add: load_def Let_def)

lemma wf_start_state:
  assumes "nat N * nat N + nat N \<le> length ds"
  shows "wf_solver (nat N) nprocs (start_state ar nprocs N ds)"
  unfolding start_state_def using assms by (intro wf_init_solver) simp_all

lemma jacobi_mpi_rounds:
  assumes "0 < N" "nat N * nat N + nat N \<le> length ds" "0 < nprocs"
  shows "\<exists>k\<ge>1.
     jacobi_mpi ar nprocs (File (Some N) ds) =
       Inr (report_of (nat N) ((next_solver ar (nat N) nprocs ^^ k) (start_state ar nprocs N ds))) \<and>
     \<not> loop_cond ar ((next_solver ar (nat N) nprocs ^^ k) (start_state ar nprocs N ds)) \<and>
     (\<forall>j. 1 \<le> j \<and> j < k \<longrightarrow>
        loop_cond ar ((next_solver ar (nat N) nprocs ^^ j) (start_state ar nprocs N ds)))"
proof -
  from jacobi_loop_rounds [OF wf_start_state [OF assms(2)] assms(3), of ar]
  obtain k where k: "1 \<le> k"
    "jacobi_loop ar (nat N) nprocs (start_state ar nprocs N ds) =
       Some ((next_solver ar (nat N) nprocs ^^ k) (start_state ar nprocs N ds))"
    "\<not> loop_cond ar ((next_solver ar (nat N) nprocs ^^ k) (start_state ar nprocs N ds))"
    "\<forall>j. 1 \<le> j \<and> j < k \<longrightarrow>
        loop_cond ar ((next_solver ar (nat N) nprocs ^^ j) (start_state ar nprocs N ds))"
    by blast
  from k(2) assms(1) have "jacobi_mpi ar nprocs (File (Some N) ds) =
      Inr (report_of (nat N) ((next_solver ar (nat N) nprocs ^^ k) (start_state ar nprocs N ds)))"
    by (simp add: jacobi_mpi_def load_File [OF assms(2)] start_state_def)
  with k(1,3,4) show ?thesis
    by blast
qed

lemma iterations_start_state: "iterations (start_state ar nprocs N ds) = 0"
  by (simp add: start_state_def init_solver_def)

lemma iters_report_of: "iters (report_of N st) = iterations st"
  by (simp add: report_of_def Let_def)

lemma final_error_report_of: "final_error (report_of N st) = global_error st"
  by (simp add: report_of_def Let_def)

lemma solution_report_of: "solution (report_of N st) = x_cur (ranks st ! 0)"
  by (simp add: report_of_def Let_def)


subsection \<open>Termination and exit status\<close>


lemma jacobi_loop_result:
  assumes "wf_solver N nprocs st" "0 < nprocs" "iterations st < MAX_ITER"
  shows "\<exists>st'. jacobi_loop ar N nprocs st = Some st' \<and> wf_solver N nprocs st' \<and>
           iterations st < iterations st' \<and> iterations st' \<le> MAX_ITER \<and>
           (iterations st' = MAX_ITER \<or> \<not> fgt ar (global_error st') (TOLERANCE ar))"
proof -
  let ?next = "next_solver ar N nprocs"
  from jacobi_loop_rounds [OF assms(1,2), of ar]
  obtain k where k: "1 \<le> k" "jacobi_loop ar N nprocs st = Some ((?next ^^ k) st)"
    "\<not> loop_cond ar ((?next ^^ k) st)"
    "\<And>j. 1 \<le> j \<Longrightarrow> j < k \<Longrightarrow> loop_cond ar ((?next ^^ j) st)"
    by blast
  have its: "iterations ((?next ^^ j) st) = iterations st + j" for j
    by (rule iterations_funpow)
  have le: "iterations st + k \<le> MAX_ITER"
  proof (cases "k = 1")
    case True
    with assms(3) show ?thesis by simp
  next
    case False
    with k(1) k(4) [of "k - 1"] have "iterations st + (k - 1) < MAX_ITER"
      by (simp add: loop_cond_def its)
    then show ?thesis by simp
  qed
  from k(3) le have "iterations st + k = MAX_ITER \<or>
      \<not> fgt ar (global_error ((?next ^^ k) st)) (TOLERANCE ar)"
    by (auto simp: loop_cond_def its)
  with k(1,2) le wf_funpow [OF assms(1,2), where ar = ar and k = k] show ?thesis
    by (simp add: its)
qed

lemma jacobi_mpi_valid:
  assumes "0 < N" "nat N * nat N + nat N \<le> length ds" "0 < nprocs"
  shows "\<exists>st'. jacobi_loop ar (nat N) nprocs (start_state ar nprocs N ds) = Some st' \<and>
           jacobi_mpi ar nprocs (File (Some N) ds) = Inr (report_of (nat N) st') \<and>
           1 \<le> iterations st' \<and> iterations st' \<le> MAX_ITER \<and>
           (iterations st' = MAX_ITER \<or> \<not> fgt ar (global_error st') (TOLERANCE ar))"
proof -
  have "iterations (start_state ar nprocs N ds) < MAX_ITER"
    by (simp add: iterations_start_state MAX_ITER_def)
  from jacobi_loop_result [OF wf_start_state [OF assms(2)] assms(3) this, of ar]
  obtain st' where st': "jacobi_loop ar (nat N) nprocs (start_state ar nprocs N ds) = Some st'"
    "iterations (start_state ar nprocs N ds) < iterations st'" "iterations st' \<le> MAX_ITER"
    "iterations st' = MAX_ITER \<or> \<not> fgt ar (global_error st') (TOLERANCE ar)"
    by blast
  from st'(1) assms(1) have "jacobi_mpi ar nprocs (File (Some N) ds) = Inr (report_of (nat N) st')"
    by (simp add: jacobi_mpi_def load_File [OF assms(2)] start_state_def)
  with st' show ?thesis
    by (auto simp: iterations_start_state)
qed






text \<open>
  C3, on the code. The solver does not look at the diagonal before it divides by it
  (line 119). For the system of dimension 1 with \<open>A[0][0] = 0.0\<close>, on one rank, the
  program enters the iteration, runs at least one round and ends with status 0,
  whatever the arithmetic makes of the division.
\<close>

theorem zero_diagonal_not_detected:
  "\<exists>rep. jacobi_mpi ar 1 (File (Some 1) [fzero ar, b]) = Inr rep \<and> 1 \<le> iters rep \<and>
     exit_status (jacobi_mpi ar 1 (File (Some 1) [fzero ar, b])) = Some 0"
proof -
  have "\<exists>st'. jacobi_loop ar (nat 1) 1 (start_state ar 1 1 [fzero ar, b]) = Some st' \<and>
           jacobi_mpi ar 1 (File (Some 1) [fzero ar, b]) = Inr (report_of (nat 1) st') \<and>
           1 \<le> iterations st' \<and> iterations st' \<le> MAX_ITER \<and>
           (iterations st' = MAX_ITER \<or> \<not> fgt ar (global_error st') (TOLERANCE ar))"
    by (rule jacobi_mpi_valid) simp_all
  then show ?thesis
    by (auto simp: exit_status_def iters_report_of)
qed

subsection \<open>The gather arrays can be computed once\<close>

lemma gather_counts_partition: "rcounts (gather_setup N nprocs) = partition_counts N nprocs"
  by (rule nth_equalityI)
    (simp_all add: gather_setup_length gather_setup_arrays partition_counts_def)

lemma sum_list_take_counts:
  assumes "r \<le> nprocs"
  shows "sum_list (take r (partition_counts N nprocs)) = start_row N nprocs r"
proof -
  from assms have "take r (partition_counts N nprocs) = map (local_rows N nprocs) [0..<r]"
    by (simp add: partition_counts_def take_map)
  then have "sum_list (take r (partition_counts N nprocs)) = (\<Sum>k<r. local_rows N nprocs k)"
    by (simp add: interv_sum_list_conv_sum_set_nat atLeast0LessThan)
  then show ?thesis
    by (simp add: sum_local_rows)
qed

lemma gather_displs_partition: "rdispls (gather_setup N nprocs) = partition_displs N nprocs"
  by (rule nth_equalityI)
    (simp_all add: gather_setup_length gather_setup_arrays partition_displs_def
      sum_list_take_counts)

lemma gather_bcast_pre_eq:
  "gather_bcast_pre (partition_counts N nprocs) (partition_displs N nprocs) ws =
   gather_bcast N nprocs ws"
  by (simp add: gather_bcast_pre_def gather_bcast_def gather_counts_partition
      gather_displs_partition)

lemma jacobi_round_pre_eq:
  "jacobi_round_pre ar N nprocs (partition_counts N nprocs) (partition_displs N nprocs) st =
   jacobi_round ar N nprocs st"
  by (cases "compute_all ar N nprocs (ranks st)")
    (simp_all add: jacobi_round_pre_def jacobi_round_def gather_bcast_pre_eq)

lemma jacobi_loop_pre_eq:
  "jacobi_loop_pre ar N nprocs (partition_counts N nprocs) (partition_displs N nprocs) st =
   jacobi_loop ar N nprocs st"
proof (induction ar N nprocs st rule: jacobi_loop.induct)
  case (1 ar N nprocs st)
  show ?case
  proof (cases "jacobi_round ar N nprocs st")
    case None
    then show ?thesis
      by (subst jacobi_loop_pre.simps, subst jacobi_loop.simps) (simp add: jacobi_round_pre_eq)
  next
    case (Some st')
    have "jacobi_loop_pre ar N nprocs (partition_counts N nprocs) (partition_displs N nprocs) st' =
        jacobi_loop ar N nprocs st'"
      if "fgt ar (global_error st') (TOLERANCE ar) \<and> iterations st' < MAX_ITER"
      using that by (rule "1.IH" [OF Some])
    with Some show ?thesis
      by (subst jacobi_loop_pre.simps, subst jacobi_loop.simps)
        (simp add: jacobi_round_pre_eq cong: if_cong)
  qed
qed

text \<open>
  C9. The arrays \<open>rcounts\<close> and \<open>rdispls\<close> that rank 0 computes in a round depend on
  \<open>N\<close> and the number of ranks only, so they are the same in every round. They are the
  row counts of the ranks and the prefix sums of these counts, and they are the arrays
  \<open>sendcounts_b\<close> and \<open>displsb\<close> of the scatter. The program that computes the counts
  and their prefix sums once, before the loop, returns the same result: the same
  solution, iteration count and final error, or the same failure.
\<close>

theorem precomputed_gather_arrays:
  "rcounts (gather_setup N nprocs) = partition_counts N nprocs \<and>
   rdispls (gather_setup N nprocs) = partition_displs N nprocs \<and>
   rcounts (gather_setup N nprocs) = sendcounts_b (scatter_setup N nprocs) \<and>
   rdispls (gather_setup N nprocs) = displsb (scatter_setup N nprocs) \<and>
   jacobi_round_pre ar N nprocs (partition_counts N nprocs) (partition_displs N nprocs) st =
     jacobi_round ar N nprocs st \<and>
   jacobi_mpi_pre ar nprocs f = jacobi_mpi ar nprocs f"
proof -
  have "jacobi_mpi_pre ar nprocs f = jacobi_mpi ar nprocs f"
    by (simp add: jacobi_mpi_pre_def jacobi_mpi_def jacobi_loop_pre_eq split: sum.splits)
  then show ?thesis
    by (simp add: gather_counts_partition gather_displs_partition jacobi_round_pre_eq
        gather_arrays_eq_scatter [symmetric])
qed

subsection \<open>The update formula\<close>

lemma foldl_real_arith: "foldl (fadd real_arith) a xs = a + sum_list xs"
  by (induction xs arbitrary: a) (simp_all add: real_arith_def)

lemma real_offdiag_sum:
  "foldl (fadd real_arith) (fzero real_arith)
     (map (\<lambda>j. fmul real_arith (a j) (v j)) (filter (\<lambda>j. j \<noteq> i) [0..<N])) =
   (\<Sum>j\<in>{0..<N} - {i}. a j * v j)"
proof -
  have "set (filter (\<lambda>j. j \<noteq> i) [0..<N]) = {0..<N} - {i}"
    by auto
  moreover have "sum_list (map (\<lambda>j. a j * v j) (filter (\<lambda>j. j \<noteq> i) [0..<N])) =
      sum (\<lambda>j. a j * v j) (set (filter (\<lambda>j. j \<noteq> i) [0..<N]))"
    by (rule sum_list_distinct_conv_sum_set) simp
  ultimately show ?thesis
    by (simp add: foldl_real_arith) (simp add: real_arith_def)
qed

text \<open>
  C1. On a rank whose arrays have the allocated sizes, the update loop (lines 113-120)
  reads inside the arrays only and leaves \<open>x_old\<close>, \<open>A_local\<close>, \<open>b_local\<close> and \<open>x\<close>
  as they are. It writes one value per owned row: for the row with local index \<open>li\<close>
  and global index \<open>i = start_row + li\<close>, the value is \<open>b_local[li]\<close> minus the sum of
  \<open>A_local[li * N + j] * x_old[j]\<close> over the columns \<open>j = 0, ..., N - 1\<close> other than
  \<open>i\<close>, added in this order starting from \<open>0.0\<close>, divided by \<open>A_local[li * N + i]\<close>.
  In exact arithmetic that sum is the sum over the set of columns without \<open>i\<close>.
\<close>

theorem jacobi_update_formula:
  assumes "wf_rank N nprocs rank w" and "rank < nprocs"
  shows "(\<exists>w'. update_rows ar N nprocs rank w 0 = Some w' \<and>
            x_old w' = x_old w \<and> A_local w' = A_local w \<and> b_local w' = b_local w \<and>
            x_cur w' = x_cur w \<and>
            length (x_local w') = local_rows N nprocs rank \<and>
            (\<forall>li<local_rows N nprocs rank.
               x_local w' ! li =
                 fdiv ar
                   (fsub ar (b_local w ! li)
                      (foldl (fadd ar) (fzero ar)
                         (map (\<lambda>j. fmul ar (A_local w ! (li * N + j)) (x_old w ! j))
                            (filter (\<lambda>j. j \<noteq> start_row N nprocs rank + li) [0..<N]))))
                   (A_local w ! (li * N + (start_row N nprocs rank + li))))) \<and>
         (\<forall>a v i. foldl (fadd real_arith) (fzero real_arith)
                     (map (\<lambda>j. fmul real_arith (a j) (v j)) (filter (\<lambda>j. j \<noteq> i) [0..<N])) =
                   (\<Sum>j\<in>{0..<N} - {i}. a j * v j))"
proof -
  let ?w' = "w\<lparr>x_local := take 0 (x_local w) @
        map (\<lambda>li. jacobi_value ar N (A_local w) (b_local w) (x_old w) li
               (start_row N nprocs rank + li))
          [0..<local_rows N nprocs rank]\<rparr>"
  from assms end_row_le_N [OF assms(2), of N]
  have "update_rows ar N nprocs rank w 0 = Some ?w'"
    by (intro update_rows_from) (simp_all add: wf_rank_def)
  moreover have "x_local ?w' ! li =
      fdiv ar
        (fsub ar (b_local w ! li)
           (foldl (fadd ar) (fzero ar)
              (map (\<lambda>j. fmul ar (A_local w ! (li * N + j)) (x_old w ! j))
                 (filter (\<lambda>j. j \<noteq> start_row N nprocs rank + li) [0..<N]))))
        (A_local w ! (li * N + (start_row N nprocs rank + li)))"
    if "li < local_rows N nprocs rank" for li
    using that by (simp add: jacobi_value_def offdiag_sum_def)
  ultimately have "\<exists>w'. update_rows ar N nprocs rank w 0 = Some w' \<and>
            x_old w' = x_old w \<and> A_local w' = A_local w \<and> b_local w' = b_local w \<and>
            x_cur w' = x_cur w \<and>
            length (x_local w') = local_rows N nprocs rank \<and>
            (\<forall>li<local_rows N nprocs rank.
               x_local w' ! li =
                 fdiv ar
                   (fsub ar (b_local w ! li)
                      (foldl (fadd ar) (fzero ar)
                         (map (\<lambda>j. fmul ar (A_local w ! (li * N + j)) (x_old w ! j))
                            (filter (\<lambda>j. j \<noteq> start_row N nprocs rank + li) [0..<N]))))
                   (A_local w ! (li * N + (start_row N nprocs rank + li))))"
    by (intro exI [of _ ?w']) simp
  then show ?thesis
    using real_offdiag_sum by blast
qed

theorem jacobi_update_formula_witness:
  "wf_rank 2 1 0 \<lparr>A_local = [4, 1, 1, 3], b_local = [1, 2], x_cur = [1, 1], x_old = [1, 1],
      x_local = [0, 0::real]\<rparr> \<and> (0::nat) < 1 \<and>
   (\<exists>w'. update_rows real_arith 2 1 0
       \<lparr>A_local = [4, 1, 1, 3], b_local = [1, 2], x_cur = [1, 1], x_old = [1, 1],
         x_local = [0, 0]\<rparr> 0 = Some w' \<and>
       x_old w' = [1, 1] \<and> A_local w' = [4, 1, 1, 3] \<and> b_local w' = [1, 2] \<and>
       x_local w' ! 0 = 0 \<and> x_local w' ! 1 = 1 / 3)"
proof -
  let ?w = "\<lparr>A_local = [4, 1, 1, 3], b_local = [1, 2], x_cur = [1, 1], x_old = [1, 1],
      x_local = [0, 0::real]\<rparr>"
  have rows: "local_rows 2 1 0 = 2" "local_rows 2 (Suc 0) 0 = 2"
    and start: "start_row 2 1 0 = 0" "start_row 2 (Suc 0) 0 = 0"
    by (simp_all add: local_rows_def start_row_def base_def rem_def)
  have wf: "wf_rank 2 1 0 ?w"
    by (simp add: wf_rank_def rows)
  have upt: "[0..<2] = [0, 1]"
    by (simp add: upt_rec numeral_2_eq_2)
  from jacobi_update_formula [OF wf, of real_arith] wf show ?thesis
    by (simp add: rows start upt real_arith_def) (auto simp: numeral_2_eq_2 less_Suc_eq)
qed

subsection \<open>Ranks without rows\<close>

lemma local_rows_beyond_N:
  assumes "N < nprocs" "N \<le> rank"
  shows "local_rows N nprocs rank = 0"
  using assms by (simp add: local_rows_def base_def rem_def)

lemma ranks_next_solver:
  "ranks (next_solver ar N nprocs st) = map (next_rank ar N nprocs (ranks st)) [0..<nprocs]"
  by (simp add: next_solver_def)

text \<open>
  C7. With more ranks than rows, the ranks that own no row are the ranks \<open>rank \<ge> N\<close>.
  For such a rank, in every round
  (from any state in which the arrays have their allocated sizes, and the round leads to
  such a state again) all its accesses are in range; its update loop does not run, so
  \<open>x_local\<close>, which is empty, stays as it is; its local error is exactly \<open>0.0\<close>. It
  takes part in the collectives like every other rank: its empty segment is one of the
  \<open>nprocs\<close> segments gathered, it receives the broadcast \<open>x\<close>, and its \<open>0.0\<close> is one
  of the \<open>nprocs\<close> terms of the reduction.
\<close>

theorem zero_row_worker:
  assumes "wf_solver N nprocs st" and "N < nprocs" and "N \<le> rank" and "rank < nprocs"
  shows "local_rows N nprocs rank = 0 \<and>
         (\<forall>r. local_rows N nprocs r = 0 \<longleftrightarrow> N \<le> r) \<and>
         (\<exists>w'. compute_phase ar N nprocs rank (ranks st ! rank) = Some w' \<and>
            x_local w' = x_local (ranks st ! rank) \<and> x_local w' = [] \<and>
            x_old w' = x_cur (ranks st ! rank)) \<and>
         (\<exists>ws1 errs st'.
            compute_all ar N nprocs (ranks st) = Some ws1 \<and>
            length (map x_local ws1) = nprocs \<and> map x_local ws1 ! rank = [] \<and>
            local_errors ar N nprocs (gather_bcast N nprocs ws1) = Some errs \<and>
            length errs = nprocs \<and> errs ! rank = fzero ar \<and>
            error_loop ar N nprocs rank (gather_bcast N nprocs ws1 ! rank) 0 (fzero ar) =
              Some (fzero ar) \<and>
            jacobi_round ar N nprocs st = Some st' \<and> wf_solver N nprocs st' \<and>
            x_cur (ranks st' ! rank) = x_cur (ranks st' ! 0) \<and>
            global_error st' = allreduce_sum ar errs)"
proof -
  from assms have pos: "0 < nprocs"
    by simp
  have rows: "local_rows N nprocs rank = 0"
    using assms(2,3) by (rule local_rows_beyond_N)
  from assms(1,4) have wf: "wf_rank N nprocs rank (ranks st ! rank)"
    by (simp add: wf_solver_def)
  then have empty: "x_local (ranks st ! rank) = []"
    by (simp add: wf_rank_def rows)
  have seg: "new_segment ar N nprocs rank (ranks st ! rank) = []"
    by (simp add: new_segment_def rows)
  let ?ws1 = "map (\<lambda>rank. (ranks st ! rank)\<lparr>x_old := x_cur (ranks st ! rank),
      x_local := new_segment ar N nprocs rank (ranks st ! rank)\<rparr>) [0..<nprocs]"
  let ?ws2 = "map (next_rank ar N nprocs (ranks st)) [0..<nprocs]"
  let ?errs = "map (\<lambda>rank. local_error_of ar N nprocs rank (next_rank ar N nprocs (ranks st) rank))
      [0..<nprocs]"
  have phase: "\<exists>w'. compute_phase ar N nprocs rank (ranks st ! rank) = Some w' \<and>
      x_local w' = x_local (ranks st ! rank) \<and> x_local w' = [] \<and>
      x_old w' = x_cur (ranks st ! rank)"
    by (simp add: compute_phase_Some [OF wf assms(4)] seg empty)
  have all: "compute_all ar N nprocs (ranks st) = Some ?ws1"
    by (rule compute_all_Some [OF assms(1)])
  have gb: "gather_bcast N nprocs ?ws1 = ?ws2"
    by (rule gather_bcast_eq [OF assms(1) pos])
  have errs: "local_errors ar N nprocs ?ws2 = Some ?errs"
    by (rule local_errors_Some [OF assms(1) pos])
  have zero: "local_error_of ar N nprocs rank w = fzero ar" for w
    by (simp add: local_error_of_def rows)
  have loop: "error_loop ar N nprocs rank w 0 (fzero ar) = Some (fzero ar)" for w
    by (subst error_loop.simps) (simp add: rows)
  have round: "jacobi_round ar N nprocs st = Some (next_solver ar N nprocs st)"
    by (rule jacobi_round_Some [OF assms(1) pos])
  have wf': "wf_solver N nprocs (next_solver ar N nprocs st)"
    by (rule wf_next_solver [OF assms(1) pos])
  have bcast: "x_cur (ranks (next_solver ar N nprocs st) ! rank) =
      x_cur (ranks (next_solver ar N nprocs st) ! 0)"
    using assms(4) pos by (simp add: ranks_next_solver next_rank_def)
  have "compute_all ar N nprocs (ranks st) = Some ?ws1 \<and>
      length (map x_local ?ws1) = nprocs \<and> map x_local ?ws1 ! rank = [] \<and>
      local_errors ar N nprocs (gather_bcast N nprocs ?ws1) = Some ?errs \<and>
      length ?errs = nprocs \<and> ?errs ! rank = fzero ar \<and>
      error_loop ar N nprocs rank (gather_bcast N nprocs ?ws1 ! rank) 0 (fzero ar) =
        Some (fzero ar) \<and>
      jacobi_round ar N nprocs st = Some (next_solver ar N nprocs st) \<and>
      wf_solver N nprocs (next_solver ar N nprocs st) \<and>
      x_cur (ranks (next_solver ar N nprocs st) ! rank) =
        x_cur (ranks (next_solver ar N nprocs st) ! 0) \<and>
      global_error (next_solver ar N nprocs st) = allreduce_sum ar ?errs"
    using all errs round wf' bcast assms(4)
    by (simp add: gb seg zero loop) (simp add: next_solver_def)
  then have "\<exists>ws1 errs st'.
      compute_all ar N nprocs (ranks st) = Some ws1 \<and>
      length (map x_local ws1) = nprocs \<and> map x_local ws1 ! rank = [] \<and>
      local_errors ar N nprocs (gather_bcast N nprocs ws1) = Some errs \<and>
      length errs = nprocs \<and> errs ! rank = fzero ar \<and>
      error_loop ar N nprocs rank (gather_bcast N nprocs ws1 ! rank) 0 (fzero ar) =
        Some (fzero ar) \<and>
      jacobi_round ar N nprocs st = Some st' \<and> wf_solver N nprocs st' \<and>
      x_cur (ranks st' ! rank) = x_cur (ranks st' ! 0) \<and>
      global_error st' = allreduce_sum ar errs"
    by blast
  moreover have "\<forall>r. local_rows N nprocs r = 0 \<longleftrightarrow> N \<le> r"
    using assms(2) by (auto simp: local_rows_def base_def rem_def)
  ultimately show ?thesis
    using rows phase by blast
qed

theorem zero_row_worker_witness:
  "wf_solver 1 2 (init_solver real_arith 1 2 [2] [4]) \<and> (1::nat) < 2 \<and> (1::nat) \<le> 1 \<and>
   local_rows 1 2 1 = 0 \<and>
   (\<exists>w'. compute_phase real_arith 1 2 1 (ranks (init_solver real_arith 1 2 [2] [4]) ! 1) = Some w' \<and>
      x_local w' = []) \<and>
   (\<exists>errs st'. jacobi_round real_arith 1 2 (init_solver real_arith 1 2 [2] [4]) = Some st' \<and>
      global_error st' = allreduce_sum real_arith errs \<and> length errs = 2 \<and> errs ! 1 = 0)"
proof -
  have wf: "wf_solver 1 2 (init_solver real_arith 1 2 [2] [4])"
    by (rule wf_init_solver) simp_all
  have zero: "fzero real_arith = 0"
    by (simp add: real_arith_def)
  from zero_row_worker [OF wf, of 1 real_arith] wf show ?thesis
    unfolding zero by simp blast
qed

subsection \<open>The global error in exact arithmetic\<close>

lemma allreduce_real_arith: "allreduce_sum real_arith es = sum_list es"
  by (cases es) (simp_all add: foldl_real_arith, simp add: real_arith_def)

lemma sum_over_ranges:
  fixes f :: "nat \<Rightarrow> real"
  shows "(\<Sum>rank<r. \<Sum>i = start_row N nprocs rank..<end_row N nprocs rank. f i) =
         (\<Sum>i<start_row N nprocs r. f i)"
proof (induction r)
  case 0
  then show ?case by (simp add: start_row_0)
next
  case (Suc r)
  have "(\<Sum>i = 0..<start_row N nprocs r. f i) +
        (\<Sum>i = start_row N nprocs r..<end_row N nprocs r. f i) =
        (\<Sum>i = 0..<end_row N nprocs r. f i)"
    by (rule sum.atLeastLessThan_concat) (simp_all add: end_row_def)
  with Suc show ?case
    by (simp add: start_row_Suc end_row_def lessThan_atLeast0)
qed

lemma local_error_real:
  "local_error_of real_arith N nprocs rank w =
   (\<Sum>i = start_row N nprocs rank..<end_row N nprocs rank. \<bar>x_cur w ! i - x_old w ! i\<bar>)"
proof -
  have "local_error_of real_arith N nprocs rank w =
      (\<Sum>li = 0..<local_rows N nprocs rank.
         \<bar>x_cur w ! (start_row N nprocs rank + li) - x_old w ! (start_row N nprocs rank + li)\<bar>)"
    by (simp add: local_error_of_def foldl_real_arith interv_sum_list_conv_sum_set_nat)
      (simp add: real_arith_def)
  also have "\<dots> = (\<Sum>i = start_row N nprocs rank..<end_row N nprocs rank.
      \<bar>x_cur w ! i - x_old w ! i\<bar>)"
    using sum.shift_bounds_nat_ivl [of "\<lambda>i. \<bar>x_cur w ! i - x_old w ! i\<bar>" 0
        "start_row N nprocs rank" "local_rows N nprocs rank"]
    by (simp add: end_row_def add.commute)
  finally show ?thesis .
qed

lemma global_error_real:
  assumes "0 < nprocs"
  shows "global_error (next_solver real_arith N nprocs st) =
     (\<Sum>rank<nprocs. \<Sum>i = start_row N nprocs rank..<end_row N nprocs rank.
        \<bar>new_x real_arith N nprocs (ranks st) ! i - x_cur (ranks st ! rank) ! i\<bar>)"
  by (simp add: next_solver_def allreduce_real_arith interv_sum_list_conv_sum_set_nat
      local_error_real next_rank_def lessThan_atLeast0)

lemma global_error_real_synced:
  assumes "0 < nprocs" and "\<And>rank. rank < nprocs \<Longrightarrow> x_cur (ranks st ! rank) = xs"
  shows "global_error (next_solver real_arith N nprocs st) =
     (\<Sum>i<N. \<bar>new_x real_arith N nprocs (ranks st) ! i - xs ! i\<bar>)"
proof -
  have "global_error (next_solver real_arith N nprocs st) =
     (\<Sum>rank<nprocs. \<Sum>i = start_row N nprocs rank..<end_row N nprocs rank.
        \<bar>new_x real_arith N nprocs (ranks st) ! i - xs ! i\<bar>)"
    using assms(2) by (simp add: global_error_real [OF assms(1)])
  then show ?thesis
    by (simp add: sum_over_ranges start_row_nprocs [OF assms(1)])
qed

lemma x_cur_init_solver:
  "rank < nprocs \<Longrightarrow>
   x_cur (ranks (init_solver ar N nprocs A_full b_full) ! rank) = replicate N (fzero ar)"
  by (simp add: init_solver_def init_rank_def Let_def)

lemma jacobi_loop_unfold_real:
  assumes "wf_solver N nprocs st" "0 < nprocs"
  shows "jacobi_loop real_arith N nprocs st =
     (if global_error (next_solver real_arith N nprocs st) \<le> TOLERANCE real_arith \<or>
         MAX_ITER \<le> iterations (next_solver real_arith N nprocs st)
      then Some (next_solver real_arith N nprocs st)
      else jacobi_loop real_arith N nprocs (next_solver real_arith N nprocs st))"
proof -
  have "loop_cond real_arith st' \<longleftrightarrow>
      \<not> (global_error st' \<le> TOLERANCE real_arith \<or> MAX_ITER \<le> iterations st')"
    for st' :: "real solver"
    by (auto simp: loop_cond_def real_arith_def)
  then show ?thesis
    by (simp add: jacobi_loop_unfold [OF assms])
qed

subsection \<open>Dimension 1, and a zero right-hand side\<close>

lemma singleton_listI: "length xs = 1 \<Longrightarrow> xs ! 0 = v \<Longrightarrow> xs = [v]"
  by (cases xs) auto

lemma local_rows_one:
  assumes "0 < nprocs"
  shows "local_rows (Suc 0) nprocs 0 = Suc 0"
proof (cases "nprocs = Suc 0")
  case True
  then show ?thesis
    by (simp add: local_rows_def base_def rem_def)
next
  case False
  with assms have "Suc 0 < nprocs"
    by simp
  then show ?thesis
    by (simp add: local_rows_def base_def rem_def)
qed

lemma new_x_one:
  assumes "0 < nprocs" "A_local (ws ! 0) = [a]" "b_local (ws ! 0) = [b]"
  shows "new_x ar (Suc 0) nprocs ws = [fdiv ar (fsub ar b (fzero ar)) a]"
proof (rule singleton_listI)
  show "length (new_x ar (Suc 0) nprocs ws) = 1"
    by (simp add: length_new_x [OF assms(1)])
  have "new_x ar (Suc 0) nprocs ws ! (start_row (Suc 0) nprocs 0 + 0) =
      new_segment ar (Suc 0) nprocs 0 (ws ! 0) ! 0"
    using assms(1) by (intro new_x_nth) (simp_all add: local_rows_one)
  then show "new_x ar (Suc 0) nprocs ws ! 0 = fdiv ar (fsub ar b (fzero ar)) a"
    using assms
    by (simp add: start_row_0 new_segment_def local_rows_one jacobi_value_def offdiag_sum_def)
qed

lemma init_rank_one:
  assumes "0 < nprocs"
  shows "A_local (ranks (init_solver ar (Suc 0) nprocs [a] [b]) ! 0) = [a]"
    and "b_local (ranks (init_solver ar (Suc 0) nprocs [a] [b]) ! 0) = [b]"
  using assms
  by (simp_all add: init_solver_def init_rank_def Let_def scatterv_def scatter_setup_arrays
      local_rows_one start_row_0)

lemma next_solver_fields:
  assumes "rank < nprocs"
  shows "A_local (ranks (next_solver ar N nprocs st) ! rank) = A_local (ranks st ! rank)"
    and "b_local (ranks (next_solver ar N nprocs st) ! rank) = b_local (ranks st ! rank)"
    and "x_cur (ranks (next_solver ar N nprocs st) ! rank) = new_x ar N nprocs (ranks st)"
    and "x_old (ranks (next_solver ar N nprocs st) ! rank) = x_cur (ranks st ! rank)"
  using assms by (simp_all add: ranks_next_solver next_rank_def)


lemma sum_list_all_zero: "(\<And>v. v \<in> set ys \<Longrightarrow> v = (0::real)) \<Longrightarrow> sum_list ys = 0"
  by (induction ys) simp_all

lemma offdiag_sum_zero_x:
  "offdiag_sum real_arith N Al (replicate N 0) li i = 0"
proof -
  have "sum_list (map (\<lambda>j. Al ! (li * N + j) * replicate N (0::real) ! j)
      (filter (\<lambda>j. j \<noteq> i) [0..<N])) = 0"
    by (rule sum_list_all_zero) auto
  then show ?thesis
    by (simp add: offdiag_sum_def foldl_real_arith) (simp add: real_arith_def)
qed

lemma tolerance_real_arith: "TOLERANCE real_arith = 5902958103587057 / 2 ^ 69"
  by (simp add: real_arith_def)

lemma b_local_init_zero:
  assumes "rank < nprocs" "li < local_rows N nprocs rank"
  shows "b_local (ranks (init_solver ar N nprocs A_full (replicate N z)) ! rank) ! li = z"
proof -
  from end_row_le_N [OF assms(1), of N] assms(2)
  have "li < N - start_row N nprocs rank"
    by (simp add: end_row_def)
  with assms show ?thesis
    by (simp add: init_solver_def init_rank_def Let_def scatterv_def scatter_setup_arrays)
qed

lemma new_x_zero_rhs:
  assumes "0 < nprocs"
  shows "new_x real_arith N nprocs (ranks (init_solver real_arith N nprocs A_full (replicate N 0))) =
     replicate N 0"
proof (rule nth_equalityI)
  let ?ws = "ranks (init_solver real_arith N nprocs A_full (replicate N 0))"
  show "length (new_x real_arith N nprocs ?ws) = length (replicate N (0::real))"
    by (simp add: length_new_x [OF assms])
  fix i
  assume "i < length (new_x real_arith N nprocs ?ws)"
  then have i: "i < N"
    by (simp add: length_new_x [OF assms])
  from owner_exists [OF assms i] obtain r
    where r: "r < nprocs" "start_row N nprocs r \<le> i" "i < end_row N nprocs r"
    by blast
  define li where "li = i - start_row N nprocs r"
  with r have li: "li < local_rows N nprocs r" "i = start_row N nprocs r + li"
    by (simp_all add: end_row_def)
  have "new_x real_arith N nprocs ?ws ! (start_row N nprocs r + li) =
      new_segment real_arith N nprocs r (?ws ! r) ! li"
    using r(1) li(1) by (rule new_x_nth)
  also have "\<dots> = 0"
    using li(1) r(1) b_local_init_zero [OF r(1) li(1), of real_arith A_full 0]
    by (simp add: new_segment_def jacobi_value_def x_cur_init_solver)
      (simp add: real_arith_def offdiag_sum_zero_x [unfolded real_arith_def, simplified])
  finally show "new_x real_arith N nprocs ?ws ! i = replicate N 0 ! i"
    using i li(2) by simp
qed

lemma zero_rhs_run:
  assumes "0 < N" "length As = nat N * nat N" "0 < nprocs"
  shows "\<exists>rep. jacobi_mpi real_arith nprocs (File (Some N) (As @ replicate (nat N) 0 @ rest)) =
           Inr rep \<and>
         iters rep = 1 \<and> solution rep = replicate (nat N) 0 \<and> final_error rep = 0"
proof -
  let ?n = "nat N"
  let ?st0 = "init_solver real_arith ?n nprocs As (replicate ?n 0)"
  let ?st1 = "next_solver real_arith ?n nprocs ?st0"
  have wf0: "wf_solver ?n nprocs ?st0"
    using assms(2) by (intro wf_init_solver) simp_all
  have x0: "x_cur (ranks ?st0 ! rank) = replicate ?n 0" if "rank < nprocs" for rank
    using that by (simp add: x_cur_init_solver real_arith_def)
  have new0: "new_x real_arith ?n nprocs (ranks ?st0) = replicate ?n 0"
    by (rule new_x_zero_rhs [OF assms(3)])
  have err: "global_error ?st1 = 0"
    using global_error_real_synced [OF assms(3) x0, where N = ?n]
    by (simp add: new0)
  have loop: "jacobi_loop real_arith ?n nprocs ?st0 = Some ?st1"
    by (subst jacobi_loop_unfold_real [OF wf0 assms(3)])
      (simp add: err tolerance_real_arith)
  have "load (File (Some N) (As @ replicate ?n 0 @ rest)) = Inr (N, As, replicate ?n 0)"
    using assms(2) by (simp add: load_def Let_def)
  with assms(1) have "jacobi_mpi real_arith nprocs (File (Some N) (As @ replicate ?n 0 @ rest)) =
      Inr (report_of ?n ?st1)"
    by (simp add: jacobi_mpi_def loop)
  moreover have "iters (report_of ?n ?st1) = 1"
    by (simp add: iters_report_of iterations_next init_solver_def)
  moreover have "solution (report_of ?n ?st1) = replicate ?n 0"
    using assms(3) by (simp add: solution_report_of next_solver_fields new0)
  moreover have "final_error (report_of ?n ?st1) = 0"
    by (simp add: final_error_report_of err)
  ultimately show ?thesis
    by blast
qed

lemma local_rows_one_other:
  assumes "0 < rank" "rank < nprocs"
  shows "local_rows (Suc 0) nprocs rank = 0"
  using assms by (simp add: local_rows_def base_def rem_def)

lemma global_error_one:
  assumes "0 < nprocs"
  shows "global_error (next_solver ar (Suc 0) nprocs st) =
     one_row_error ar nprocs (new_x ar (Suc 0) nprocs (ranks st) ! 0) (x_cur (ranks st ! 0) ! 0)"
proof -
  have "map (\<lambda>rank. local_error_of ar (Suc 0) nprocs rank (next_rank ar (Suc 0) nprocs (ranks st) rank))
        [0..<nprocs] =
      map (\<lambda>rank. if rank = 0
             then fadd ar (fzero ar)
                    (fabs ar (fsub ar (new_x ar (Suc 0) nprocs (ranks st) ! 0)
                                      (x_cur (ranks st ! 0) ! 0)))
             else fzero ar) [0..<nprocs]"
  proof (rule map_cong [OF refl])
    fix rank
    assume "rank \<in> set [0..<nprocs]"
    then have rank: "rank < nprocs"
      by simp
    show "local_error_of ar (Suc 0) nprocs rank (next_rank ar (Suc 0) nprocs (ranks st) rank) =
        (if rank = 0
         then fadd ar (fzero ar)
                (fabs ar (fsub ar (new_x ar (Suc 0) nprocs (ranks st) ! 0)
                                  (x_cur (ranks st ! 0) ! 0)))
         else fzero ar)"
    proof (cases "rank = 0")
      case True
      with assms show ?thesis
        by (simp add: local_error_of_def local_rows_one start_row_0 next_rank_def)
    next
      case False
      with rank show ?thesis
        by (simp add: local_error_of_def local_rows_one_other)
    qed
  qed
  moreover have "global_error (next_solver ar (Suc 0) nprocs st) =
      allreduce_sum ar
        (map (\<lambda>rank. local_error_of ar (Suc 0) nprocs rank
                (next_rank ar (Suc 0) nprocs (ranks st) rank)) [0..<nprocs])"
    by (simp add: next_solver_def)
  ultimately show ?thesis
    by (simp only: one_row_error_def)
qed

lemma one_by_one_rounds:
  fixes ar :: "'a arith" and a b :: 'a
  assumes "0 < nprocs"
  defines "v \<equiv> fdiv ar (fsub ar b (fzero ar)) a"
  defines "e1 \<equiv> one_row_error ar nprocs v (fzero ar)"
  defines "e2 \<equiv> one_row_error ar nprocs v v"
  shows "\<not> fgt ar e1 (TOLERANCE ar) \<Longrightarrow>
           jacobi_mpi ar nprocs (File (Some 1) (a # b # rest)) =
             Inr \<lparr>solution = [v], printed = [v], iters = 1, final_error = e1\<rparr>"
    and "fgt ar e1 (TOLERANCE ar) \<Longrightarrow> \<not> fgt ar e2 (TOLERANCE ar) \<Longrightarrow>
           jacobi_mpi ar nprocs (File (Some 1) (a # b # rest)) =
             Inr \<lparr>solution = [v], printed = [v], iters = 2, final_error = e2\<rparr>"
proof -
  let ?st0 = "init_solver ar (Suc 0) nprocs [a] [b]"
  let ?st1 = "next_solver ar (Suc 0) nprocs ?st0"
  let ?st2 = "next_solver ar (Suc 0) nprocs ?st1"
  have wf0: "wf_solver (Suc 0) nprocs ?st0"
    by (rule wf_init_solver) simp_all
  have wf1: "wf_solver (Suc 0) nprocs ?st1"
    by (rule wf_next_solver [OF wf0 assms(1)])
  have x0: "x_cur (ranks ?st0 ! 0) = [fzero ar]"
    using assms(1) by (simp add: x_cur_init_solver)
  have A0: "A_local (ranks ?st0 ! 0) = [a]" "b_local (ranks ?st0 ! 0) = [b]"
    using assms(1) by (simp_all add: init_rank_one)
  have new0: "new_x ar (Suc 0) nprocs (ranks ?st0) = [v]"
    unfolding v_def by (rule new_x_one [OF assms(1) A0])
  have x1: "x_cur (ranks ?st1 ! 0) = [v]"
    using assms(1) by (simp add: next_solver_fields new0)
  have A1: "A_local (ranks ?st1 ! 0) = [a]" "b_local (ranks ?st1 ! 0) = [b]"
    using assms(1) by (simp_all add: next_solver_fields A0)
  have new1: "new_x ar (Suc 0) nprocs (ranks ?st1) = [v]"
    unfolding v_def by (rule new_x_one [OF assms(1) A1])
  have x2: "x_cur (ranks ?st2 ! 0) = [v]"
    using assms(1) by (simp add: next_solver_fields new1)
  have err1: "global_error ?st1 = e1"
    unfolding e1_def by (simp add: global_error_one [OF assms(1)] new0 x0)
  have err2: "global_error ?st2 = e2"
    unfolding e2_def by (simp add: global_error_one [OF assms(1)] new1 x1)
  have it: "iterations ?st1 = 1" "iterations ?st2 = 2"
    by (simp_all add: iterations_next init_solver_def)
  have rep1: "report_of (Suc 0) ?st1 =
      \<lparr>solution = [v], printed = [v], iters = 1, final_error = e1\<rparr>"
    by (simp add: report_of_def err1 it x1)
  have rep2: "report_of (Suc 0) ?st2 =
      \<lparr>solution = [v], printed = [v], iters = 2, final_error = e2\<rparr>"
    by (simp add: report_of_def err2 it x2)
  have load: "load (File (Some 1) (a # b # rest)) = Inr (1, [a], [b])"
    by (simp add: load_def)
  have unfold0: "jacobi_loop ar (Suc 0) nprocs ?st0 =
      (if loop_cond ar ?st1 then jacobi_loop ar (Suc 0) nprocs ?st1 else Some ?st1)"
    by (rule jacobi_loop_unfold [OF wf0 assms(1)])
  have unfold1: "jacobi_loop ar (Suc 0) nprocs ?st1 =
      (if loop_cond ar ?st2 then jacobi_loop ar (Suc 0) nprocs ?st2 else Some ?st2)"
    by (rule jacobi_loop_unfold [OF wf1 assms(1)])
  show "jacobi_mpi ar nprocs (File (Some 1) (a # b # rest)) =
      Inr \<lparr>solution = [v], printed = [v], iters = 1, final_error = e1\<rparr>"
    if "\<not> fgt ar e1 (TOLERANCE ar)"
  proof -
    from that have "\<not> loop_cond ar ?st1"
      by (simp add: loop_cond_def err1)
    with unfold0 have "jacobi_loop ar (Suc 0) nprocs ?st0 = Some ?st1"
      by simp
    then show ?thesis
      by (simp add: jacobi_mpi_def load rep1)
  qed
  show "jacobi_mpi ar nprocs (File (Some 1) (a # b # rest)) =
      Inr \<lparr>solution = [v], printed = [v], iters = 2, final_error = e2\<rparr>"
    if "fgt ar e1 (TOLERANCE ar)" "\<not> fgt ar e2 (TOLERANCE ar)"
  proof -
    from that(1) have "loop_cond ar ?st1"
      by (simp add: loop_cond_def err1 it MAX_ITER_def)
    moreover from that(2) have "\<not> loop_cond ar ?st2"
      by (simp add: loop_cond_def err2)
    ultimately have "jacobi_loop ar (Suc 0) nprocs ?st0 = Some ?st2"
      using unfold0 unfold1 by simp
    then show ?thesis
      by (simp add: jacobi_mpi_def load rep2)
  qed
qed




subsection \<open>The global error and the end of the loop\<close>

lemma concat_ranges:
  "concat (map (\<lambda>rank. [start_row N nprocs rank..<end_row N nprocs rank]) [0..<r]) =
   [0..<start_row N nprocs r]"
proof (induction r)
  case 0
  then show ?case by (simp add: start_row_0)
next
  case (Suc r)
  have "[0..<start_row N nprocs r + local_rows N nprocs r] =
      [0..<start_row N nprocs r] @
      [start_row N nprocs r..<start_row N nprocs r + local_rows N nprocs r]"
    by (rule upt_add_eq_append) simp
  with Suc show ?case
    by (simp add: start_row_Suc end_row_def)
qed

lemma local_error_of_range:
  "local_error_of ar N nprocs rank w =
   foldl (fadd ar) (fzero ar)
     (map (\<lambda>i. fabs ar (fsub ar (x_cur w ! i) (x_old w ! i)))
        [start_row N nprocs rank..<end_row N nprocs rank])"
proof -
  have "[start_row N nprocs rank..<end_row N nprocs rank] =
      map (\<lambda>li. li + start_row N nprocs rank) [0..<local_rows N nprocs rank]"
    by (simp add: map_add_upt end_row_def add.commute)
  then show ?thesis
    by (simp add: local_error_of_def comp_def add.commute)
qed

lemma global_error_next:
  "global_error (next_solver ar N nprocs st) =
   allreduce_sum ar
     (map (\<lambda>rank. local_error_of ar N nprocs rank (ranks (next_solver ar N nprocs st) ! rank))
        [0..<nprocs])"
proof -
  have "map (\<lambda>rank. local_error_of ar N nprocs rank (next_rank ar N nprocs (ranks st) rank))
          [0..<nprocs] =
        map (\<lambda>rank. local_error_of ar N nprocs rank (ranks (next_solver ar N nprocs st) ! rank))
          [0..<nprocs]"
    by (rule map_cong [OF refl]) (simp add: ranks_next_solver)
  moreover have "global_error (next_solver ar N nprocs st) =
      allreduce_sum ar
        (map (\<lambda>rank. local_error_of ar N nprocs rank (next_rank ar N nprocs (ranks st) rank))
           [0..<nprocs])"
    by (simp add: next_solver_def)
  ultimately show ?thesis
    by (simp only:)
qed

lemma x_local_next_solver:
  "rank < nprocs \<Longrightarrow>
   x_local (ranks (next_solver ar N nprocs st) ! rank) =
     new_segment ar N nprocs rank (ranks st ! rank)"
  by (simp add: ranks_next_solver next_rank_def)

lemma new_x_concat_x_local:
  "new_x ar N nprocs (ranks st) =
   concat (map (\<lambda>r. x_local (ranks (next_solver ar N nprocs st) ! r)) [0..<nprocs])"
proof -
  have "map (\<lambda>r. new_segment ar N nprocs r (ranks st ! r)) [0..<nprocs] =
      map (\<lambda>r. x_local (ranks (next_solver ar N nprocs st) ! r)) [0..<nprocs]"
    by (rule map_cong [OF refl]) (simp add: x_local_next_solver)
  then show ?thesis
    by (simp only: new_x_def)
qed

lemma jacobi_loop_halts_iff:
  assumes "wf_solver N nprocs st" "0 < nprocs"
  shows "jacobi_loop ar N nprocs st = Some (next_solver ar N nprocs st) \<longleftrightarrow>
     \<not> fgt ar (global_error (next_solver ar N nprocs st)) (TOLERANCE ar) \<or>
     MAX_ITER \<le> iterations (next_solver ar N nprocs st)"
proof (cases "loop_cond ar (next_solver ar N nprocs st)")
  case True
  let ?st' = "next_solver ar N nprocs st"
  from True have less: "iterations ?st' < MAX_ITER"
    by (simp add: loop_cond_def)
  from jacobi_loop_result [OF wf_next_solver [OF assms] assms(2) less, of ar]
  obtain st'' where "jacobi_loop ar N nprocs ?st' = Some st''" "iterations ?st' < iterations st''"
    by blast
  then have "jacobi_loop ar N nprocs ?st' \<noteq> Some ?st'"
    by auto
  with True show ?thesis
    by (simp add: jacobi_loop_unfold [OF assms]) (simp add: loop_cond_def)
next
  case False
  then show ?thesis
    by (simp add: jacobi_loop_unfold [OF assms]) (auto simp: loop_cond_def)
qed

text \<open>
  C5, as the code has it. In any arithmetic, from a state in which the arrays have their
  allocated sizes, a round ends with the same new \<open>x\<close> on every rank and the previous
  \<open>x\<close> in \<open>x_old\<close>. Its global error is the reduction, over the ranks, of each rank's
  sum, added from \<open>0.0\<close> in the order of the rows, of \<open>|x[i] - x_old[i]|\<close> over the rows
  \<open>start_row, ..., end_row - 1\<close> it owns; these ranges, one after the other, are the rows
  \<open>0, ..., N - 1\<close>, each once. The loop tests its condition on the state after the whole
  round, and returns that state exactly when \<open>global_error > TOLERANCE\<close> is false or
  the counter has reached \<open>MAX_ITER\<close>. In exact arithmetic, with every rank holding the
  same \<open>x\<close> before the round, the global error is the sum of \<open>|x[i] - x_old[i]|\<close> over
  all rows and the test is \<open>global_error \<le> TOLERANCE\<close>, where \<open>TOLERANCE\<close> is the
  \<open>double\<close> nearest to \<open>1e-5\<close>.
\<close>

theorem global_error_and_halting:
  assumes "wf_solver N nprocs st" and "0 < nprocs"
  shows "(\<exists>st'. jacobi_round ar N nprocs st = Some st' \<and>
            (\<forall>rank<nprocs. x_cur (ranks st' ! rank) = x_cur (ranks st' ! 0) \<and>
               x_old (ranks st' ! rank) = x_cur (ranks st ! rank)) \<and>
            global_error st' =
              allreduce_sum ar
                (map (\<lambda>rank. foldl (fadd ar) (fzero ar)
                        (map (\<lambda>i. fabs ar (fsub ar (x_cur (ranks st' ! rank) ! i)
                                                    (x_old (ranks st' ! rank) ! i)))
                           [start_row N nprocs rank..<end_row N nprocs rank]))
                   [0..<nprocs]) \<and>
            jacobi_loop ar N nprocs st =
              (if fgt ar (global_error st') (TOLERANCE ar) \<and> iterations st' < MAX_ITER
               then jacobi_loop ar N nprocs st' else Some st') \<and>
            (jacobi_loop ar N nprocs st = Some st' \<longleftrightarrow>
               \<not> fgt ar (global_error st') (TOLERANCE ar) \<or> MAX_ITER \<le> iterations st')) \<and>
         concat (map (\<lambda>rank. [start_row N nprocs rank..<end_row N nprocs rank]) [0..<nprocs]) =
           [0..<N] \<and>
         (\<forall>sr xs. wf_solver N nprocs sr \<and> (\<forall>rank<nprocs. x_cur (ranks sr ! rank) = xs) \<longrightarrow>
            (\<exists>sr'. jacobi_round real_arith N nprocs sr = Some sr' \<and>
               global_error sr' = (\<Sum>i<N. \<bar>x_cur (ranks sr' ! 0) ! i - xs ! i\<bar>))) \<and>
         (\<forall>e. \<not> fgt real_arith e (TOLERANCE real_arith) \<longleftrightarrow> e \<le> 5902958103587057 / 2 ^ 69)"
proof -
  let ?st' = "next_solver ar N nprocs st"
  have round: "jacobi_round ar N nprocs st = Some ?st'"
    by (rule jacobi_round_Some [OF assms])
  have fields: "x_cur (ranks ?st' ! rank) = x_cur (ranks ?st' ! 0) \<and>
      x_old (ranks ?st' ! rank) = x_cur (ranks st ! rank)" if "rank < nprocs" for rank
    using that assms(2) by (simp add: next_solver_fields)
  have err: "global_error ?st' =
      allreduce_sum ar
        (map (\<lambda>rank. foldl (fadd ar) (fzero ar)
                (map (\<lambda>i. fabs ar (fsub ar (x_cur (ranks ?st' ! rank) ! i)
                                            (x_old (ranks ?st' ! rank) ! i)))
                   [start_row N nprocs rank..<end_row N nprocs rank]))
           [0..<nprocs])"
    by (simp only: global_error_next local_error_of_range)
  have loop: "jacobi_loop ar N nprocs st =
      (if fgt ar (global_error ?st') (TOLERANCE ar) \<and> iterations ?st' < MAX_ITER
       then jacobi_loop ar N nprocs ?st' else Some ?st')"
    by (simp add: jacobi_loop_unfold [OF assms] loop_cond_def)
  note halts = jacobi_loop_halts_iff [OF assms, of ar]
  from round fields err loop halts
  have first: "\<exists>st'. jacobi_round ar N nprocs st = Some st' \<and>
            (\<forall>rank<nprocs. x_cur (ranks st' ! rank) = x_cur (ranks st' ! 0) \<and>
               x_old (ranks st' ! rank) = x_cur (ranks st ! rank)) \<and>
            global_error st' =
              allreduce_sum ar
                (map (\<lambda>rank. foldl (fadd ar) (fzero ar)
                        (map (\<lambda>i. fabs ar (fsub ar (x_cur (ranks st' ! rank) ! i)
                                                    (x_old (ranks st' ! rank) ! i)))
                           [start_row N nprocs rank..<end_row N nprocs rank]))
                   [0..<nprocs]) \<and>
            jacobi_loop ar N nprocs st =
              (if fgt ar (global_error st') (TOLERANCE ar) \<and> iterations st' < MAX_ITER
               then jacobi_loop ar N nprocs st' else Some st') \<and>
            (jacobi_loop ar N nprocs st = Some st' \<longleftrightarrow>
               \<not> fgt ar (global_error st') (TOLERANCE ar) \<or> MAX_ITER \<le> iterations st')"
    by (intro exI [of _ ?st'] conjI allI impI) blast+
  have rows: "concat (map (\<lambda>rank. [start_row N nprocs rank..<end_row N nprocs rank]) [0..<nprocs]) =
      [0..<N]"
    by (simp add: concat_ranges start_row_nprocs [OF assms(2)])
  have exact: "\<exists>sr'. jacobi_round real_arith N nprocs sr = Some sr' \<and>
      global_error sr' = (\<Sum>i<N. \<bar>x_cur (ranks sr' ! 0) ! i - xs ! i\<bar>)"
    if "wf_solver N nprocs sr" "\<forall>rank<nprocs. x_cur (ranks sr ! rank) = xs" for sr xs
  proof -
    have "global_error (next_solver real_arith N nprocs sr) =
        (\<Sum>i<N. \<bar>new_x real_arith N nprocs (ranks sr) ! i - xs ! i\<bar>)"
      using assms(2) that(2) by (intro global_error_real_synced) simp_all
    with assms(2) jacobi_round_Some [OF that(1) assms(2), of real_arith] show ?thesis
      by (simp add: next_solver_fields)
  qed
  have test: "\<not> fgt real_arith e (TOLERANCE real_arith) \<longleftrightarrow> e \<le> 5902958103587057 / 2 ^ 69"
    for e
    by (simp add: real_arith_def not_less)
  from first rows exact test show ?thesis
    by blast
qed

theorem global_error_and_halting_witness:
  "wf_solver 1 2 (init_solver real_arith 1 2 [2] [4]) \<and> (0::nat) < 2 \<and>
   (\<exists>st'. jacobi_round real_arith 1 2 (init_solver real_arith 1 2 [2] [4]) = Some st' \<and>
      x_old (ranks st' ! 1) = x_cur (ranks (init_solver real_arith 1 2 [2] [4]) ! 1) \<and>
      (jacobi_loop real_arith 1 2 (init_solver real_arith 1 2 [2] [4]) = Some st' \<longleftrightarrow>
         \<not> fgt real_arith (global_error st') (TOLERANCE real_arith) \<or>
         MAX_ITER \<le> iterations st')) \<and>
   concat (map (\<lambda>rank. [start_row 1 2 rank..<end_row 1 2 rank]) [0..<2]) = [0..<1]"
proof -
  let ?st = "init_solver real_arith 1 2 [2] [4]"
  have wf: "wf_solver 1 2 ?st"
    by (rule wf_init_solver) simp_all
  have pos: "(0::nat) < 2"
    by simp
  from global_error_and_halting [OF wf pos, of real_arith]
  obtain st' where st': "jacobi_round real_arith 1 2 ?st = Some st'"
    "\<forall>rank<2. x_cur (ranks st' ! rank) = x_cur (ranks st' ! 0) \<and>
       x_old (ranks st' ! rank) = x_cur (ranks ?st ! rank)"
    "jacobi_loop real_arith 1 2 ?st = Some st' \<longleftrightarrow>
       \<not> fgt real_arith (global_error st') (TOLERANCE real_arith) \<or> MAX_ITER \<le> iterations st'"
    and rows: "concat (map (\<lambda>rank. [start_row 1 2 rank..<end_row 1 2 rank]) [0..<2]) = [0..<1]"
    by blast
  from st'(2) have "x_old (ranks st' ! 1) = x_cur (ranks ?st ! 1)"
    by simp
  with st'(1,3) have "\<exists>st'. jacobi_round real_arith 1 2 ?st = Some st' \<and>
      x_old (ranks st' ! 1) = x_cur (ranks ?st ! 1) \<and>
      (jacobi_loop real_arith 1 2 ?st = Some st' \<longleftrightarrow>
         \<not> fgt real_arith (global_error st') (TOLERANCE real_arith) \<or>
         MAX_ITER \<le> iterations st')"
    by blast
  with wf pos rows show ?thesis
    by (intro conjI)
qed

text \<open>
  The arithmetic \<open>nan_arith\<close> on the file \<open>1, 1.0, nan\<close> on one rank: \<open>x[0]\<close> and the
  global error of the first round are NaN, the test \<open>global_error > TOLERANCE\<close> is
  false, and the loop stops after 1 round, below the cap, with an error that is not
  less than or equal to the tolerance.
\<close>

theorem nan_error_halts:
  "jacobi_mpi nan_arith 1 (File (Some 1) [Some 1, None]) =
     Inr \<lparr>solution = [None], printed = [None], iters = 1, final_error = None\<rparr> \<and>
   \<not> le_nan None (TOLERANCE nan_arith) \<and> (1::nat) < MAX_ITER"
proof -
  have v: "fdiv nan_arith (fsub nan_arith None (fzero nan_arith)) (Some 1) = None"
    by (simp add: nan_arith_def)
  have e: "one_row_error nan_arith (Suc 0) None (fzero nan_arith) = None"
    by (simp add: one_row_error_def nan_arith_def)
  have "\<not> fgt nan_arith None (TOLERANCE nan_arith)"
    by (simp add: nan_arith_def)
  with one_by_one_rounds(1) [of 1 nan_arith None "Some 1" "[]"] show ?thesis
    by (simp add: v e le_nan_def MAX_ITER_def)
qed

subsection \<open>The first round\<close>

text \<open>
  C10. For every file with \<open>N \<ge> 1\<close> (and \<open>N * N \<le> INT_MAX\<close>) and the numbers of
  \<open>A\<close> and \<open>b\<close>, on at least one rank and in any arithmetic, the first round runs in
  full from the initial state before the loop condition is tested for the first time:
  every rank saves the zero vector in \<open>x_old\<close> and computes the Jacobi values of its
  rows into \<open>x_local\<close>, the new \<open>x\<close> of every rank is the segments of all ranks one
  after the other, the global error is the reduction of the local errors of all ranks,
  and the counter is 1. The loop condition is tested on this state, so the reported
  iteration count is at least 1, and it is exactly 1 when the global error of that
  first round is not greater than the tolerance. In exact arithmetic, for a matrix
  with a non-zero diagonal and \<open>b = 0\<close>, the zero start vector is already the answer and
  the solver still reports 1 iteration, with the zero vector and final error 0.
\<close>

theorem at_least_one_round:
  fixes ar :: "'a arith" and ds :: "'a list"
  assumes "0 < N" and "0 < nprocs" and "nat N * nat N + nat N \<le> length ds"
    and "nat N * nat N \<le> INT_MAX"
    and "length As = nat N * nat N" and "\<forall>i<nat N. As ! (i * nat N + i) \<noteq> 0"
  defines "st0 \<equiv> start_state ar nprocs N ds"
  defines "st1 \<equiv> next_solver ar (nat N) nprocs (start_state ar nprocs N ds)"
  shows "jacobi_round ar (nat N) nprocs st0 = Some st1 \<and>
         (\<forall>rank<nprocs.
            x_old (ranks st1 ! rank) = replicate (nat N) (fzero ar) \<and>
            x_local (ranks st1 ! rank) =
              map (\<lambda>li. jacobi_value ar (nat N) (A_local (ranks st0 ! rank))
                           (b_local (ranks st0 ! rank)) (replicate (nat N) (fzero ar)) li
                           (start_row (nat N) nprocs rank + li))
                [0..<local_rows (nat N) nprocs rank] \<and>
            x_cur (ranks st1 ! rank) =
              concat (map (\<lambda>r. x_local (ranks st1 ! r)) [0..<nprocs])) \<and>
         global_error st1 =
           allreduce_sum ar
             (map (\<lambda>rank. local_error_of ar (nat N) nprocs rank (ranks st1 ! rank)) [0..<nprocs]) \<and>
         iterations st1 = 1 \<and>
         jacobi_loop ar (nat N) nprocs st0 =
           (if fgt ar (global_error st1) (TOLERANCE ar) \<and> iterations st1 < MAX_ITER
            then jacobi_loop ar (nat N) nprocs st1 else Some st1) \<and>
         (\<exists>rep. jacobi_mpi ar nprocs (File (Some N) ds) = Inr rep \<and> 1 \<le> iters rep) \<and>
         (\<not> fgt ar (global_error st1) (TOLERANCE ar) \<longrightarrow>
            jacobi_mpi ar nprocs (File (Some N) ds) = Inr (report_of (nat N) st1) \<and>
            iters (report_of (nat N) st1) = 1) \<and>
         (\<exists>rep. jacobi_mpi real_arith nprocs (File (Some N) (As @ replicate (nat N) 0 @ rest)) =
            Inr rep \<and>
            iters rep = 1 \<and> solution rep = replicate (nat N) 0 \<and> final_error rep = 0)"
proof -
  have wf: "wf_solver (nat N) nprocs st0"
    unfolding st0_def by (rule wf_start_state [OF assms(3)])
  have st1: "st1 = next_solver ar (nat N) nprocs st0"
    by (simp add: st1_def st0_def)
  have round: "jacobi_round ar (nat N) nprocs st0 = Some st1"
    unfolding st1 by (rule jacobi_round_Some [OF wf assms(2)])
  have x0: "x_cur (ranks st0 ! rank) = replicate (nat N) (fzero ar)" if "rank < nprocs" for rank
    using that by (simp add: st0_def start_state_def x_cur_init_solver)
  have fields: "x_old (ranks st1 ! rank) = replicate (nat N) (fzero ar) \<and>
      x_local (ranks st1 ! rank) =
        map (\<lambda>li. jacobi_value ar (nat N) (A_local (ranks st0 ! rank))
                     (b_local (ranks st0 ! rank)) (replicate (nat N) (fzero ar)) li
                     (start_row (nat N) nprocs rank + li))
          [0..<local_rows (nat N) nprocs rank] \<and>
      x_cur (ranks st1 ! rank) = concat (map (\<lambda>r. x_local (ranks st1 ! r)) [0..<nprocs])"
    if "rank < nprocs" for rank
    using that x0 [OF that] new_x_concat_x_local [of ar "nat N" nprocs st0]
    by (simp add: st1 next_solver_fields x_local_next_solver new_segment_def)
  have err: "global_error st1 =
      allreduce_sum ar
        (map (\<lambda>rank. local_error_of ar (nat N) nprocs rank (ranks st1 ! rank)) [0..<nprocs])"
    unfolding st1 by (rule global_error_next)
  have it: "iterations st1 = 1"
    by (simp add: st1 st0_def iterations_next iterations_start_state)
  have loop: "jacobi_loop ar (nat N) nprocs st0 =
      (if fgt ar (global_error st1) (TOLERANCE ar) \<and> iterations st1 < MAX_ITER
       then jacobi_loop ar (nat N) nprocs st1 else Some st1)"
    by (subst jacobi_loop.simps) (simp add: round)
  from jacobi_mpi_valid [OF assms(1,3,2), of ar]
  have count: "\<exists>rep. jacobi_mpi ar nprocs (File (Some N) ds) = Inr rep \<and> 1 \<le> iters rep"
    by (auto simp: iters_report_of)
  have once: "jacobi_mpi ar nprocs (File (Some N) ds) = Inr (report_of (nat N) st1) \<and>
      iters (report_of (nat N) st1) = 1"
    if "\<not> fgt ar (global_error st1) (TOLERANCE ar)"
  proof -
    from that loop have "jacobi_loop ar (nat N) nprocs st0 = Some st1"
      by simp
    with assms(1) show ?thesis
      by (simp add: jacobi_mpi_def load_File [OF assms(3)] start_state_def [symmetric]
          st0_def [symmetric] iters_report_of it)
  qed
  note zero = zero_rhs_run [OF assms(1,5,2), of rest]
  from round fields err it loop count once zero show ?thesis
    by blast
qed

theorem at_least_one_round_witness:
  "(0::int) < 1 \<and> (0::nat) < 2 \<and> nat 1 * nat 1 + nat 1 \<le> length [2::real, 4] \<and>
   nat 1 * nat 1 \<le> INT_MAX \<and> length [3::real] = nat 1 * nat 1 \<and>
   [3::real] ! (0 * nat 1 + 0) \<noteq> 0 \<and>
   jacobi_round real_arith (nat 1) 2 (start_state real_arith 2 1 [2, 4]) =
     Some (next_solver real_arith (nat 1) 2 (start_state real_arith 2 1 [2, 4])) \<and>
   (\<exists>rep. jacobi_mpi real_arith 2 (File (Some 1) [2, 4]) = Inr rep \<and> 1 \<le> iters rep) \<and>
   (\<exists>rep. jacobi_mpi real_arith 2 (File (Some 1) ([3] @ replicate (nat 1) 0 @ [])) = Inr rep \<and>
      iters rep = 1 \<and> solution rep = replicate (nat 1) 0 \<and> final_error rep = 0)"
proof -
  have hyps: "(0::int) < 1" "(0::nat) < 2" "nat 1 * nat 1 + nat 1 \<le> length [2::real, 4]"
    "nat 1 * nat 1 \<le> INT_MAX" "length [3::real] = nat 1 * nat 1"
    "\<forall>i<nat 1. [3::real] ! (i * nat 1 + i) \<noteq> 0"
    by (simp_all add: INT_MAX_def)
  have diag: "[3::real] ! (0 * nat 1 + 0) \<noteq> 0"
    by simp
  from at_least_one_round [OF hyps, of real_arith "[]"] hyps(1-5) diag show ?thesis
    by blast
qed

end
